theory Spec2Isabelle
  imports Main
begin

chapter \<open>The model\<close>

section \<open>Errors\<close>

text \<open>
  Every exception the modelled code can raise is a value. \<open>ValueError\<close> carries its
  message; the messages of the repository's own \<open>raise\<close> statements are the source's
  literals, those of the standard library are indicative.
\<close>

datatype error =
    ValueError string
  | OverflowError string
  | KeyError string
  | TypeError string
  | AttributeError string
  | DatabaseError string

section \<open>Calendar dates: \<open>datetime.date\<close>, \<open>calendar.monthrange\<close>\<close>

record date =
  year :: nat
  month :: nat
  day :: nat

definition MINYEAR :: nat where "MINYEAR = 1"
definition MAXYEAR :: nat where "MAXYEAR = 9999"

definition isleap :: "nat \<Rightarrow> bool" where
  "isleap y = (y mod 4 = 0 \<and> (y mod 100 \<noteq> 0 \<or> y mod 400 = 0))"

text \<open>\<open>calendar.mdays\<close>, indexed by month number (index 0 is a filler).\<close>

definition mdays :: "nat list" where
  "mdays = [0, 31, 28, 31, 30, 31, 30, 31, 31, 30, 31, 30, 31]"

text \<open>
  The second component of \<open>calendar.monthrange(year, month)\<close>: the number of days of the
  month. A month outside 1..12 raises \<open>IllegalMonthError\<close>, a \<open>ValueError\<close>.
\<close>

definition monthrange_ndays :: "nat \<Rightarrow> nat \<Rightarrow> error + nat" where
  "monthrange_ndays y m =
     (if \<not> (1 \<le> m \<and> m \<le> 12) then Inl (ValueError ''bad month number; must be 1-12'')
      else Inr (mdays ! m + (if m = 2 \<and> isleap y then 1 else 0)))"

definition days_in_month :: "nat \<Rightarrow> nat \<Rightarrow> nat" where
  "days_in_month y m = mdays ! m + (if m = 2 \<and> isleap y then 1 else 0)"

text \<open>The invariant of every \<open>date\<close> object: what the constructor checks.\<close>

definition valid_date :: "date \<Rightarrow> bool" where
  "valid_date d =
     (MINYEAR \<le> year d \<and> year d \<le> MAXYEAR \<and> 1 \<le> month d \<and> month d \<le> 12 \<and>
      1 \<le> day d \<and> day d \<le> days_in_month (year d) (month d))"

text \<open>The constructor \<open>date(year, month, day)\<close>.\<close>

definition date_new :: "nat \<Rightarrow> nat \<Rightarrow> nat \<Rightarrow> error + date" where
  "date_new y m d =
     (if \<not> (MINYEAR \<le> y \<and> y \<le> MAXYEAR) then Inl (ValueError ''year is out of range'')
      else if \<not> (1 \<le> m \<and> m \<le> 12) then Inl (ValueError ''month must be in 1..12'')
      else if \<not> (1 \<le> d \<and> d \<le> days_in_month y m)
        then Inl (ValueError ''day is out of range for month'')
      else Inr \<lparr>year = y, month = m, day = d\<rparr>)"

text \<open>Comparison of dates (\<open><\<close> on \<open>date\<close>): lexicographic on year, month, day.\<close>

definition date_less :: "date \<Rightarrow> date \<Rightarrow> bool" where
  "date_less a b =
     (year a < year b \<or>
      (year a = year b \<and> (month a < month b \<or> (month a = month b \<and> day a < day b))))"

text \<open>
  The proleptic Gregorian ordinal of a date (\<open>date.toordinal\<close>): 1 for 0001-01-01.
\<close>

definition days_before_year :: "nat \<Rightarrow> nat" where
  "days_before_year y = (y - 1) * 365 + (y - 1) div 4 - (y - 1) div 100 + (y - 1) div 400"

definition days_before_month :: "nat \<Rightarrow> nat \<Rightarrow> nat" where
  "days_before_month y m = (\<Sum>k \<leftarrow> [1..<m]. days_in_month y k)"

definition toordinal :: "date \<Rightarrow> nat" where
  "toordinal d = days_before_year (year d) + days_before_month (year d) (month d) + day d"

definition MAXORDINAL :: nat where
  "MAXORDINAL = 3652059"

text \<open>
  \<open>date + timedelta(days=n)\<close> for \<open>n \<ge> 0\<close>: the date \<open>n\<close> days later, and
  \<open>OverflowError\<close> when that is after 9999-12-31. One day later is the next day of the
  month, else the first of the next month, else the first of January of the next year.
\<close>

definition next_day :: "date \<Rightarrow> error + date" where
  "next_day d =
     (if day d < days_in_month (year d) (month d) then Inr (d\<lparr>day := day d + 1\<rparr>)
      else if month d < 12 then Inr (d\<lparr>month := month d + 1, day := 1\<rparr>)
      else if year d < MAXYEAR then Inr \<lparr>year = year d + 1, month = 1, day = 1\<rparr>
      else Inl (OverflowError ''date value out of range''))"

fun add_days :: "nat \<Rightarrow> date \<Rightarrow> error + date" where
  "add_days 0 d = Inr d"
| "add_days (Suc n) d = (case next_day d of Inl e \<Rightarrow> Inl e | Inr d' \<Rightarrow> add_days n d')"

section \<open>Times of day and timestamps: \<open>datetime.time\<close>, \<open>datetime.datetime\<close>\<close>

record time =
  hour :: nat
  minute :: nat
  second :: nat
  microsecond :: nat

record datetime =
  date_part :: date
  time_part :: time

section \<open>The habit model (app/models/habit.py)\<close>

record Habit =
  name :: string
  description :: string
  goal :: string
  start_date :: datetime
  periodicity :: string
  reminder :: "time option"
  completed :: bool
  streak :: int
  last_completed_date :: "date option"

text \<open>
  \<open>Habit._expected_next_date\<close>: the date that would continue the streak, \<open>None\<close> when
  there is no previous completion. Any periodicity other than \<open>daily\<close> and \<open>weekly\<close>
  takes the monthly branch, as in the source.
\<close>

definition expected_next_date :: "Habit \<Rightarrow> error + date option" where
  "expected_next_date self =
     (case last_completed_date self of
        None \<Rightarrow> Inr None
      | Some l \<Rightarrow>
          if periodicity self = ''daily'' then map_sum id Some (add_days 1 l)
          else if periodicity self = ''weekly'' then map_sum id Some (add_days 7 l)
          else
            (let y = year l; m = month l + 1;
                 y = (if m = 13 then y + 1 else y);
                 m = (if m = 13 then 1 else m)
             in (case monthrange_ndays y m of
                   Inl e \<Rightarrow> Inl e
                 | Inr last_day \<Rightarrow> map_sum id Some (date_new y m (min (day l) last_day)))))"

text \<open>
  \<open>Habit.check_off(on_date)\<close>. The method mutates \<open>self\<close>; the model returns the new
  state. \<open>on_date = None\<close> stands for the omitted argument, which the source replaces
  by \<open>date.today()\<close>, here the parameter \<open>today\<close>. An exception of
  \<open>_expected_next_date\<close> leaves the method before any field is written.
\<close>

definition check_off :: "Habit \<Rightarrow> date option \<Rightarrow> date \<Rightarrow> error + Habit" where
  "check_off self on_date today =
     (let on_date = (case on_date of None \<Rightarrow> today | Some d \<Rightarrow> d) in
      case (if last_completed_date self = None then Inr (self\<lparr>streak := 1\<rparr>)
            else case expected_next_date self of
                   Inl e \<Rightarrow> Inl e
                 | Inr expected \<Rightarrow>
                     if expected \<noteq> None \<and> Some on_date = expected
                       then Inr (self\<lparr>streak := streak self + 1\<rparr>)
                     else if expected \<noteq> None \<and> date_less (the expected) on_date
                       then Inr (self\<lparr>streak := 1\<rparr>)
                     else Inr self) of
        Inl e \<Rightarrow> Inl e
      | Inr self \<Rightarrow> Inr (self\<lparr>completed := True, last_completed_date := Some on_date\<rparr>))"

text \<open>
  The state of the habit object after a call, whether it returns or raises: the method
  writes its fields only after \<open>_expected_next_date\<close> has returned, so a call that raises
  leaves the object as it was.
\<close>

definition check_off_state :: "Habit \<Rightarrow> date option \<Rightarrow> date \<Rightarrow> Habit" where
  "check_off_state self on_date today =
     (case check_off self on_date today of Inl e \<Rightarrow> self | Inr self' \<Rightarrow> self')"

text \<open>
  When \<open>_expected_next_date\<close> returns a date for a last completion \<open>d\<close>: the date one
  day, seven days or one month later is not after 9999-12-31, the last \<open>date\<close>
  (lemma \<open>expected_next_date_returns\<close> below).
\<close>

definition next_date_representable :: "string \<Rightarrow> date \<Rightarrow> bool" where
  "next_date_representable p d =
     (if p = ''daily'' then toordinal d + 1 \<le> MAXORDINAL
      else if p = ''weekly'' then toordinal d + 7 \<le> MAXORDINAL
      else \<not> (month d = 12 \<and> year d = MAXYEAR))"

section \<open>Strings and numbers\<close>

text \<open>
  A \<open>str\<close> is a list of characters; a \<open>char\<close> is read as the code point below 256.
  Among these the decimal digits are \<open>0\<close> to \<open>9\<close>.
\<close>

definition is_digit :: "char \<Rightarrow> bool" where
  "is_digit c = (c \<in> set ''0123456789'')"

definition digit_val :: "char \<Rightarrow> nat" where
  "digit_val c = of_char c - 48"

definition digit_char :: "nat \<Rightarrow> char" where
  "digit_char n = ''0123456789'' ! n"

text \<open>\<open>str(n)\<close> for a natural number, and the zero padding of \<open>%02d\<close> and \<open>%04d\<close>.\<close>

fun str_of_nat :: "nat \<Rightarrow> string" where
  "str_of_nat n = (if n < 10 then [digit_char n] else str_of_nat (n div 10) @ [digit_char (n mod 10)])"

definition zero_pad :: "nat \<Rightarrow> nat \<Rightarrow> string" where
  "zero_pad w n = replicate (w - length (str_of_nat n)) (CHR ''0'') @ str_of_nat n"

section \<open>Parsing dates and times: \<open>datetime.strptime\<close>\<close>

text \<open>
  \<open>strptime\<close> turns the format into a regular expression, matches it at the start of the
  input (the first match in the order of the alternatives, with backtracking) and then
  requires that the match covers the whole input. A matcher returns its matches in that
  order, each with the value of the matched digits and the rest of the input.
\<close>

type_synonym 'a matcher = "string \<Rightarrow> ('a \<times> string) list"

text \<open>A literal character of the format.\<close>

definition re_lit :: "char \<Rightarrow> unit matcher" where
  "re_lit c s = (case s of [] \<Rightarrow> [] | x # r \<Rightarrow> if x = c then [((), r)] else [])"

text \<open>One character of a class, then one of another: the value of the two digits.\<close>

definition re_one :: "(char \<Rightarrow> bool) \<Rightarrow> nat matcher" where
  "re_one P s = (case s of [] \<Rightarrow> [] | x # r \<Rightarrow> if P x then [(digit_val x, r)] else [])"

definition re_two :: "(char \<Rightarrow> bool) \<Rightarrow> (char \<Rightarrow> bool) \<Rightarrow> nat matcher" where
  "re_two P Q s =
     (case s of
        x # y # r \<Rightarrow> if P x \<and> Q y then [(10 * digit_val x + digit_val y, r)] else []
      | _ \<Rightarrow> [])"

definition in_range :: "char \<Rightarrow> char \<Rightarrow> char \<Rightarrow> bool" where
  "in_range lo hi c = (is_digit c \<and> digit_val lo \<le> digit_val c \<and> digit_val c \<le> digit_val hi)"

text \<open>\<open>%Y\<close> is \<open>\d\d\d\d\<close>.\<close>

definition re_Y :: "nat matcher" where
  "re_Y s =
     (case s of
        a # b # c # d # r \<Rightarrow>
          if is_digit a \<and> is_digit b \<and> is_digit c \<and> is_digit d
          then [(1000 * digit_val a + 100 * digit_val b + 10 * digit_val c + digit_val d, r)]
          else []
      | _ \<Rightarrow> [])"

text \<open>\<open>%m\<close> is \<open>1[0-2]|0[1-9]|[1-9]\<close>.\<close>

definition re_m :: "nat matcher" where
  "re_m s =
     re_two (\<lambda>c. c = CHR ''1'') (in_range (CHR ''0'') (CHR ''2'')) s @
     re_two (\<lambda>c. c = CHR ''0'') (in_range (CHR ''1'') (CHR ''9'')) s @
     re_one (in_range (CHR ''1'') (CHR ''9'')) s"

text \<open>\<open>%d\<close> is \<open>3[0-1]|[1-2]\d|0[1-9]|[1-9]| [1-9]\<close>; the last alternative starts with a space.\<close>

definition re_d :: "nat matcher" where
  "re_d s =
     re_two (\<lambda>c. c = CHR ''3'') (in_range (CHR ''0'') (CHR ''1'')) s @
     re_two (in_range (CHR ''1'') (CHR ''2'')) is_digit s @
     re_two (\<lambda>c. c = CHR ''0'') (in_range (CHR ''1'') (CHR ''9'')) s @
     re_one (in_range (CHR ''1'') (CHR ''9'')) s @
     (case s of x # r \<Rightarrow> if x = CHR '' '' then re_one (in_range (CHR ''1'') (CHR ''9'')) r else []
      | [] \<Rightarrow> [])"

text \<open>\<open>%H\<close> is \<open>2[0-3]|[0-1]\d|\d\<close> and \<open>%M\<close> is \<open>[0-5]\d|\d\<close>.\<close>

definition re_H :: "nat matcher" where
  "re_H s =
     re_two (\<lambda>c. c = CHR ''2'') (in_range (CHR ''0'') (CHR ''3'')) s @
     re_two (in_range (CHR ''0'') (CHR ''1'')) is_digit s @
     re_one is_digit s"

definition re_M :: "nat matcher" where
  "re_M s = re_two (in_range (CHR ''0'') (CHR ''5'')) is_digit s @ re_one is_digit s"

text \<open>The matches of the expression for \<open>%Y-%m-%d\<close>, and of the one for \<open>%H:%M\<close>.\<close>

definition match_Ymd :: "(nat \<times> nat \<times> nat) matcher" where
  "match_Ymd s =
     [((y, m, d), r5).
        (y, r1) \<leftarrow> re_Y s, (u, r2) \<leftarrow> re_lit (CHR ''-'') r1, (m, r3) \<leftarrow> re_m r2,
        (v, r4) \<leftarrow> re_lit (CHR ''-'') r3, (d, r5) \<leftarrow> re_d r4]"

definition match_HM :: "(nat \<times> nat) matcher" where
  "match_HM s =
     [((h, m), r3). (h, r1) \<leftarrow> re_H s, (u, r2) \<leftarrow> re_lit (CHR '':'') r1, (m, r3) \<leftarrow> re_M r2]"

text \<open>
  \<open>datetime.strptime(s, "%Y-%m-%d")\<close>: midnight of the parsed date. Each failure is a
  \<open>ValueError\<close>: no match, text after the match, or no such date.
\<close>

definition midnight :: time where
  "midnight = \<lparr>hour = 0, minute = 0, second = 0, microsecond = 0\<rparr>"

definition strptime_Ymd :: "string \<Rightarrow> error + datetime" where
  "strptime_Ymd s =
     (case match_Ymd s of
        [] \<Rightarrow> Inl (ValueError ''time data does not match format'')
      | ((y, m, d), rest) # _ \<Rightarrow>
          if rest \<noteq> [] then Inl (ValueError ''unconverted data remains'')
          else (case date_new y m d of
                  Inl e \<Rightarrow> Inl e
                | Inr dt \<Rightarrow> Inr \<lparr>date_part = dt, time_part = midnight\<rparr>))"

text \<open>
  \<open>datetime.strptime(s, "%H:%M")\<close>: the parsed time on the default date, 1900-01-01.
\<close>

definition strptime_HM :: "string \<Rightarrow> error + datetime" where
  "strptime_HM s =
     (case match_HM s of
        [] \<Rightarrow> Inl (ValueError ''time data does not match format'')
      | ((h, m), rest) # _ \<Rightarrow>
          if rest \<noteq> [] then Inl (ValueError ''unconverted data remains'')
          else Inr \<lparr>date_part = \<lparr>year = 1900, month = 1, day = 1\<rparr>,
                    time_part = \<lparr>hour = h, minute = m, second = 0, microsecond = 0\<rparr>\<rparr>)"

text \<open>
  \<open>date.isoformat()\<close>, and \<open>time.isoformat(timespec="minutes")\<close>, with which the
  interface stores the two fields.
\<close>

definition date_isoformat :: "date \<Rightarrow> string" where
  "date_isoformat d = zero_pad 4 (year d) @ ''-'' @ zero_pad 2 (month d) @ ''-'' @ zero_pad 2 (day d)"

definition time_isoformat_minutes :: "time \<Rightarrow> string" where
  "time_isoformat_minutes t = zero_pad 2 (hour t) @ '':'' @ zero_pad 2 (minute t)"

text \<open>
  \<open>Habit.from_form\<close>. \<open>if reminder:\<close> is false for \<open>None\<close> and for the empty string.
  The new habit takes the dataclass defaults for its progress fields.
\<close>

definition from_form ::
  "string \<Rightarrow> string \<Rightarrow> string \<Rightarrow> string \<Rightarrow> string \<Rightarrow> string option \<Rightarrow> error + Habit" where
  "from_form name' description' goal' start_date' periodicity' reminder' =
     (case strptime_Ymd start_date' of
        Inl e \<Rightarrow> Inl e
      | Inr start_dt \<Rightarrow>
          (case (if reminder' \<noteq> None \<and> reminder' \<noteq> Some []
                 then map_sum id (\<lambda>dt. Some (time_part dt)) (strptime_HM (the reminder'))
                 else Inr None) of
             Inl e \<Rightarrow> Inl e
           | Inr reminder_time \<Rightarrow>
               if periodicity' \<notin> {''daily'', ''weekly'', ''monthly''}
               then Inl (ValueError ''Periodicity must be one of: daily, weekly, monthly.'')
               else Inr \<lparr>name = name', description = description', goal = goal',
                         start_date = start_dt, periodicity = periodicity',
                         reminder = reminder_time, completed = False, streak = 0,
                         last_completed_date = None\<rparr>))"

section \<open>Row values: \<open>int()\<close> and \<open>str()\<close>\<close>

text \<open>
  The values of a row mapping, as the store returns them and as the tests write them:
  \<open>None\<close>, an integer or a string. On these, \<open>==\<close> is equality of the values.
\<close>

datatype pyval = PNone | PInt int | PStr string

text \<open>
  \<open>int(s)\<close> for a string: white space around the text is dropped; an optional sign is
  followed by decimal digits, which single underscores may separate. More than 4300
  digits are refused (the default \<open>sys.int_max_str_digits\<close>), by \<open>str(n)\<close> too.
\<close>

definition is_space :: "char \<Rightarrow> bool" where
  "is_space c = ((of_char c :: nat) \<in> {9, 10, 11, 12, 13, 28, 29, 30, 31, 32, 133, 160})"

definition strip :: "string \<Rightarrow> string" where
  "strip s = rev (dropWhile is_space (rev (dropWhile is_space s)))"

fun digits_value :: "nat \<Rightarrow> string \<Rightarrow> nat option" where
  "digits_value acc [] = Some acc"
| "digits_value acc (c # cs) =
     (if is_digit c then digits_value (10 * acc + digit_val c) cs
      else if c = CHR ''_'' then
        (case cs of
           [] \<Rightarrow> None
         | d # ds \<Rightarrow> if is_digit d then digits_value (10 * acc + digit_val d) ds else None)
      else None)"

definition int_max_str_digits :: nat where
  "int_max_str_digits = 4300"

definition int_of_str :: "string \<Rightarrow> error + int" where
  "int_of_str s =
     (let t = strip s;
          negative = (t \<noteq> [] \<and> hd t = CHR ''-'');
          body = (if t \<noteq> [] \<and> (hd t = CHR ''-'' \<or> hd t = CHR ''+'') then tl t else t)
      in if body = [] \<or> \<not> is_digit (hd body)
         then Inl (ValueError ''invalid literal for int() with base 10'')
         else (case digits_value 0 body of
                 None \<Rightarrow> Inl (ValueError ''invalid literal for int() with base 10'')
               | Some n \<Rightarrow>
                   if int_max_str_digits < length (filter is_digit body)
                   then Inl (ValueError ''Exceeds the limit for integer string conversion'')
                   else Inr (if negative then - int n else int n)))"

definition str_of_int :: "int \<Rightarrow> error + string" where
  "str_of_int i =
     (let digits = str_of_nat (nat \<bar>i\<bar>)
      in if int_max_str_digits < length digits
         then Inl (ValueError ''Exceeds the limit for integer string conversion'')
         else Inr (if i < 0 then CHR ''-'' # digits else digits))"

definition py_int :: "pyval \<Rightarrow> error + int" where
  "py_int v =
     (case v of
        PInt i \<Rightarrow> Inr i
      | PStr s \<Rightarrow> int_of_str s
      | PNone \<Rightarrow> Inl (TypeError ''int() argument must be a string or a real number''))"

definition py_str :: "pyval \<Rightarrow> error + string" where
  "py_str v =
     (case v of
        PStr s \<Rightarrow> Inr s
      | PInt i \<Rightarrow> str_of_int i
      | PNone \<Rightarrow> Inr ''None'')"

section \<open>Analytics (app/analysis/analyse.py)\<close>

text \<open>
  A row is a mapping from column names to values, here the list of its items.
  \<open>row[k]\<close> raises \<open>KeyError\<close> for a missing key, \<open>row.get(k, default)\<close> does not.
\<close>

type_synonym row = "(string \<times> pyval) list"

definition getitem :: "row \<Rightarrow> string \<Rightarrow> error + pyval" where
  "getitem r k = (case map_of r k of None \<Rightarrow> Inl (KeyError k) | Some v \<Rightarrow> Inr v)"

definition get :: "row \<Rightarrow> string \<Rightarrow> pyval \<Rightarrow> pyval" where
  "get r k dflt = (case map_of r k of None \<Rightarrow> dflt | Some v \<Rightarrow> v)"

record HabitView =
  view_id :: int
  view_name :: string
  view_periodicity :: pyval
  view_streak :: int
  view_last_completed_date :: pyval

text \<open>\<open>_as_view\<close>: the fields are computed in the order of the source.\<close>

definition as_view :: "row \<Rightarrow> error + HabitView" where
  "as_view r =
     (case getitem r ''id'' of Inl e \<Rightarrow> Inl e | Inr id_value \<Rightarrow>
      case py_int id_value of Inl e \<Rightarrow> Inl e | Inr i \<Rightarrow>
      case getitem r ''name'' of Inl e \<Rightarrow> Inl e | Inr name_value \<Rightarrow>
      case py_str name_value of Inl e \<Rightarrow> Inl e | Inr n \<Rightarrow>
      case py_int (get r ''streak'' (PInt 0)) of Inl e \<Rightarrow> Inl e | Inr s \<Rightarrow>
        Inr \<lparr>view_id = i, view_name = n,
             view_periodicity = get r ''periodicity'' (PStr ''daily''),
             view_streak = s,
             view_last_completed_date = get r ''last_completed_date'' PNone\<rparr>)"

text \<open>\<open>list(map(f, xs))\<close> for an \<open>f\<close> that can raise: the first exception ends it.\<close>

fun list_map :: "('a \<Rightarrow> error + 'b) \<Rightarrow> 'a list \<Rightarrow> error + 'b list" where
  "list_map f [] = Inr []"
| "list_map f (x # xs) =
     (case f x of Inl e \<Rightarrow> Inl e | Inr y \<Rightarrow>
      case list_map f xs of Inl e \<Rightarrow> Inl e | Inr ys \<Rightarrow> Inr (y # ys))"

definition list_all_habits :: "row list \<Rightarrow> error + HabitView list" where
  "list_all_habits rows = list_map as_view rows"

definition list_by_periodicity :: "row list \<Rightarrow> string \<Rightarrow> error + HabitView list" where
  "list_by_periodicity rows p =
     list_map as_view (filter (\<lambda>r. get r ''periodicity'' PNone = PStr p) rows)"

text \<open>
  \<open>max(xs, key=f)\<close>: the first element is kept until a later one has a strictly
  greater key. On the empty list it raises.
\<close>

fun max_key :: "('a \<Rightarrow> int) \<Rightarrow> 'a list \<Rightarrow> error + 'a" where
  "max_key f [] = Inl (ValueError ''max() arg is an empty sequence'')"
| "max_key f (x # xs) = Inr (foldl (\<lambda>best v. if f best < f v then v else best) x xs)"

definition longest_run_streak :: "row list \<Rightarrow> error + (int option \<times> int)" where
  "longest_run_streak rows =
     (case list_all_habits rows of
        Inl e \<Rightarrow> Inl e
      | Inr views \<Rightarrow>
          if views = [] then Inr (None, 0)
          else (case max_key view_streak views of
                  Inl e \<Rightarrow> Inl e
                | Inr top' \<Rightarrow> Inr (Some (view_id top'), view_streak top')))"

text \<open>
  \<open>next((r for r in rows if int(r["id"]) == habit_id), None)\<close>: the rows are tested in
  order, up to the first match.
\<close>

fun first_match :: "row list \<Rightarrow> int \<Rightarrow> error + row option" where
  "first_match [] habit_id = Inr None"
| "first_match (r # rs) habit_id =
     (case getitem r ''id'' of Inl e \<Rightarrow> Inl e | Inr id_value \<Rightarrow>
      case py_int id_value of Inl e \<Rightarrow> Inl e | Inr i \<Rightarrow>
        if i = habit_id then Inr (Some r) else first_match rs habit_id)"

text \<open>A mapping is true when it is not empty.\<close>

definition longest_run_streak_for :: "row list \<Rightarrow> int \<Rightarrow> error + int" where
  "longest_run_streak_for rows habit_id =
     (case first_match rows habit_id of
        Inl e \<Rightarrow> Inl e
      | Inr match \<Rightarrow>
          if match \<noteq> None \<and> the match \<noteq> [] then py_int (get (the match) ''streak'' (PInt 0))
          else Inr 0)"

text \<open>
  A habit row as the store's schema has it: an integer \<open>id\<close>, a text \<open>name\<close>, and an
  integer \<open>streak\<close> (0 when the column is left out). \<open>row_id\<close> and \<open>row_streak\<close> read
  the two numbers.
\<close>

definition habit_row :: "row \<Rightarrow> bool" where
  "habit_row r =
     ((case map_of r ''id'' of Some (PInt i) \<Rightarrow> True | _ \<Rightarrow> False) \<and>
      (case map_of r ''name'' of Some (PStr n) \<Rightarrow> True | _ \<Rightarrow> False) \<and>
      (case map_of r ''streak'' of None \<Rightarrow> True | Some (PInt s) \<Rightarrow> True | _ \<Rightarrow> False))"

definition row_id :: "row \<Rightarrow> int" where
  "row_id r = (case map_of r ''id'' of Some (PInt i) \<Rightarrow> i | _ \<Rightarrow> 0)"

definition row_streak :: "row \<Rightarrow> int" where
  "row_streak r = (case map_of r ''streak'' of Some (PInt s) \<Rightarrow> s | _ \<Rightarrow> 0)"

section \<open>The store (app/db/database.py)\<close>

text \<open>
  The SQLite library is outside the repository. Its connection is a state of any type
  \<open>'c\<close>, and the two operations the methods below use are parameters:
  \<open>execute\<close> runs one statement with its parameters and gives the cursor and the new
  state, \<open>commit\<close> commits. Of the cursor only \<open>lastrowid\<close> is read.
\<close>

record cursor =
  lastrowid :: int

record 'c sqlite =
  execute :: "'c \<Rightarrow> string \<Rightarrow> pyval list \<Rightarrow> error + (cursor \<times> 'c)"
  commit :: "'c \<Rightarrow> error + 'c"

record 'c Database =
  path :: string
  conn :: "'c option"

text \<open>\<open>sep.join(xs)\<close>.\<close>

fun join :: "string \<Rightarrow> string list \<Rightarrow> string" where
  "join sep [] = []"
| "join sep [x] = x"
| "join sep (x # y # ys) = x @ sep @ join sep (y # ys)"

text \<open>
  A method returns the value of its \<open>return\<close> statement, or \<open>None\<close> when it ends
  without one, and the new state of the object. \<open>self.conn\<close> is \<open>None\<close> before
  \<open>initialize\<close>, and \<open>None.cursor()\<close> raises \<open>AttributeError\<close>.
\<close>

definition save_user ::
  "'c sqlite \<Rightarrow> 'c Database \<Rightarrow> string \<Rightarrow> string \<Rightarrow> error + (pyval \<times> 'c Database)" where
  "save_user db self name' email' =
     (case conn self of
        None \<Rightarrow> Inl (AttributeError ''NoneType object has no attribute cursor'')
      | Some c \<Rightarrow>
          (case execute db c ''INSERT INTO users(name, email) VALUES (?, ?)''
                  [PStr name', PStr email'] of
             Inl e \<Rightarrow> Inl e
           | Inr (cur, c') \<Rightarrow>
               (case commit db c' of
                  Inl e \<Rightarrow> Inl e
                | Inr c'' \<Rightarrow> Inr (PInt (lastrowid cur), self\<lparr>conn := Some c''\<rparr>))))"

definition save_habit ::
  "'c sqlite \<Rightarrow> 'c Database \<Rightarrow> (string \<times> pyval) list \<Rightarrow> error + (pyval \<times> 'c Database)" where
  "save_habit db self fields' =
     (let keys = join '','' (map fst fields');
          placeholders = join '','' (replicate (length fields') ''?'');
          values' = map snd fields'
      in case conn self of
           None \<Rightarrow> Inl (AttributeError ''NoneType object has no attribute cursor'')
         | Some c \<Rightarrow>
             (case execute db c
                     (''INSERT INTO habits('' @ keys @ '') VALUES ('' @ placeholders @ '')'')
                     values' of
                Inl e \<Rightarrow> Inl e
              | Inr (cur, c') \<Rightarrow>
                  (case commit db c' of
                     Inl e \<Rightarrow> Inl e
                   | Inr c'' \<Rightarrow> Inr (PNone, self\<lparr>conn := Some c''\<rparr>))))"

section \<open>Example data\<close>

text \<open>
  The weekly habit of the test fixtures (tests/conftest.py), after its second on-time
  completion on Monday, 13 January 2025.
\<close>

definition call_family :: Habit where
  "call_family =
     \<lparr>name = ''Call Family'', description = ''Weekly call'', goal = ''Relationships'',
      start_date = \<lparr>date_part = \<lparr>year = 2025, month = 1, day = 6\<rparr>,
                    time_part = \<lparr>hour = 0, minute = 0, second = 0, microsecond = 0\<rparr>\<rparr>,
      periodicity = ''weekly'', reminder = None, completed = True, streak = 2,
      last_completed_date = Some \<lparr>year = 2025, month = 1, day = 13\<rparr>\<rparr>"

text \<open>
  A habit object whose fields break the invariant of the data model: a last completion
  date with a streak of 0. The dataclass constructor accepts it, and so does the
  rehydration of a stored row, which copies both fields from the row.
\<close>

definition inconsistent_habit :: Habit where
  "inconsistent_habit =
     \<lparr>name = ''Read'', description = ''Read 10 pages'', goal = ''Learning'',
      start_date = \<lparr>date_part = \<lparr>year = 2025, month = 1, day = 1\<rparr>,
                    time_part = \<lparr>hour = 0, minute = 0, second = 0, microsecond = 0\<rparr>\<rparr>,
      periodicity = ''daily'', reminder = None, completed = False, streak = 0,
      last_completed_date = Some \<lparr>year = 2025, month = 1, day = 6\<rparr>\<rparr>"

text \<open>The first demo habit, as \<open>from_form\<close> builds it: no completion yet.\<close>

definition drink_water :: Habit where
  "drink_water =
     \<lparr>name = ''Drink Water'', description = ''8 glasses'', goal = ''Hydration'',
      start_date = \<lparr>date_part = \<lparr>year = 2025, month = 1, day = 1\<rparr>,
                    time_part = \<lparr>hour = 0, minute = 0, second = 0, microsecond = 0\<rparr>\<rparr>,
      periodicity = ''daily'', reminder = Some \<lparr>hour = 9, minute = 0, second = 0, microsecond = 0\<rparr>,
      completed = False, streak = 0, last_completed_date = None\<rparr>"

text \<open>A monthly habit last completed on 31 January 2025.\<close>

definition budget_review :: Habit where
  "budget_review =
     \<lparr>name = ''Budget Review'', description = ''Review spending'', goal = ''Finance'',
      start_date = \<lparr>date_part = \<lparr>year = 2025, month = 1, day = 1\<rparr>,
                    time_part = \<lparr>hour = 0, minute = 0, second = 0, microsecond = 0\<rparr>\<rparr>,
      periodicity = ''monthly'', reminder = None, completed = True, streak = 1,
      last_completed_date = Some \<lparr>year = 2025, month = 1, day = 31\<rparr>\<rparr>"

text \<open>The invariant of the data model: the streak is 0 exactly when no completion is recorded.\<close>

definition habit_invariant :: "Habit \<Rightarrow> bool" where
  "habit_invariant h = ((streak h = 0) = (last_completed_date h = None))"

text \<open>
  The habit states of a run: a habit as \<open>from_form\<close> builds it, and the state after any
  returning \<open>check_off\<close> on such a state.
\<close>

inductive reachable :: "Habit \<Rightarrow> bool" where
  created: "from_form n ds g sd p r = Inr h \<Longrightarrow> reachable h"
| checked: "reachable h \<Longrightarrow> check_off h od today = Inr h' \<Longrightarrow> reachable h'"

text \<open>Three habit rows, the last two with the same, greatest streak.\<close>

definition tied_rows :: "row list" where
  "tied_rows =
     [[(''id'', PInt 1), (''name'', PStr ''Drink Water''), (''periodicity'', PStr ''daily''),
       (''streak'', PInt 3), (''last_completed_date'', PStr ''2025-01-08'')],
      [(''id'', PInt 2), (''name'', PStr ''Read''), (''periodicity'', PStr ''daily''),
       (''streak'', PInt 7), (''last_completed_date'', PStr ''2025-01-12'')],
      [(''id'', PInt 3), (''name'', PStr ''Call Family''), (''periodicity'', PStr ''weekly''),
       (''streak'', PInt 7), (''last_completed_date'', PStr ''2025-02-17'')]]"

text \<open>
  For the examples, an engine that accepts every statement: its state is the list of
  the statements run so far, and the row a statement inserts gets the next number.
\<close>

definition log_engine :: "(string \<times> pyval list) list sqlite" where
  "log_engine =
     \<lparr>execute = (\<lambda>c sql params. Inr (\<lparr>lastrowid = int (length c) + 1\<rparr>, c @ [(sql, params)])),
      commit = (\<lambda>c. Inr c)\<rparr>"

text \<open>The habit that tests/test_db.py saves, as keyword arguments.\<close>

definition drink_water_fields :: "(string \<times> pyval) list" where
  "drink_water_fields =
     [(''user_id'', PInt 1), (''name'', PStr ''Drink Water''),
      (''description'', PStr ''8 glasses''), (''goal'', PStr ''Hydration''),
      (''start_date'', PStr ''2025-08-01''), (''periodicity'', PStr ''daily''),
      (''reminder'', PStr ''09:00''), (''completed'', PInt 0), (''streak'', PInt 0),
      (''last_completed_date'', PNone)]"

chapter \<open>Properties\<close>

section \<open>Calendar lemmas\<close>

lemmas calendar_defs = days_in_month_def mdays_def isleap_def MAXYEAR_def MINYEAR_def

lemma date_less_trichotomy: "a = b \<or> date_less a b \<or> date_less b a"
  by (cases a, cases b) (auto simp: date_less_def)

lemma date_less_irrefl: "\<not> date_less a a"
  by (simp add: date_less_def)

lemma date_less_asym: "date_less a b \<Longrightarrow> \<not> date_less b a"
  by (auto simp: date_less_def)

lemma add_days_numeral:
  "add_days (numeral k) d =
     (case next_day d of Inl e \<Rightarrow> Inl e | Inr d' \<Rightarrow> add_days (pred_numeral k) d')"
  by (simp add: numeral_eq_Suc)

lemma add_days_1: "add_days (Suc 0) d = next_day d"
  by (simp split: sum.splits)

lemma mod_0_cancel:
  fixes a :: nat
  assumes "c dvd b" "a mod b = 0"
  shows "a mod c = 0"
  using assms by (metis mod_mod_cancel mod_0)

lemma days_before_year_Suc:
  "1 \<le> y \<Longrightarrow> days_before_year (Suc y) = days_before_year y + (if isleap y then 366 else 365)"
proof -
  assume "1 \<le> y"
  then obtain x where y: "y = Suc x" by (cases y) auto
  have m1: "Suc x mod 400 = 0 \<Longrightarrow> Suc x mod 100 = 0" 
    by (rule mod_0_cancel[of 100 400]) simp_all
  have m2: "Suc x mod 100 = 0 \<Longrightarrow> Suc x mod 4 = 0"
    by (rule mod_0_cancel[of 4 100]) simp_all
  have le: "x div 100 \<le> x div 4" 
    by (rule div_le_mono2) simp_all
  show ?thesis
    unfolding days_before_year_def isleap_def y
    using m1 m2 le by (auto simp add: div_Suc ac_simps)
qed

lemma days_before_year_mono: "y \<le> y' \<Longrightarrow> days_before_year y \<le> days_before_year y'"
proof (rule lift_Suc_mono_le [of days_before_year])
  fix n show "days_before_year n \<le> days_before_year (Suc n)"
  proof (cases n)
    case 0 then show ?thesis by (simp add: days_before_year_def)
  next
    case (Suc k) then show ?thesis using days_before_year_Suc [of n] by simp
  qed
qed

lemma days_before_month_Suc:
  "1 \<le> m \<Longrightarrow> days_before_month y (Suc m) = days_before_month y m + days_in_month y m"
  by (simp add: days_before_month_def)

lemma days_before_month_1: "days_before_month y (Suc 0) = 0"
  by (simp add: days_before_month_def)

lemma days_before_month_numeral:
  "days_before_month y (numeral k) =
     (if pred_numeral k = 0 then 0
      else days_before_month y (pred_numeral k) + days_in_month y (pred_numeral k))"
  by (simp add: numeral_eq_Suc days_before_month_def)

lemma month_cases:
  assumes "1 \<le> m" "m \<le> 12"
  shows "m \<in> {1, 2, 3, 4, 5, 6, 7, 8, 9, 10, 11, 12::nat}"
  using assms by (simp only: insert_iff empty_iff) arith

lemma days_in_month_ge: "1 \<le> m \<Longrightarrow> m \<le> 12 \<Longrightarrow> 28 \<le> days_in_month y m"
  by (drule (1) month_cases) (auto simp: days_in_month_def mdays_def)

lemma days_in_year_le:
  assumes "valid_date d"
  shows "days_before_month (year d) (month d) + day d \<le> (if isleap (year d) then 366 else 365)"
proof -
  from assms have "month d \<in> {1, 2, 3, 4, 5, 6, 7, 8, 9, 10, 11, 12::nat}"
    by (intro month_cases) (simp_all add: valid_date_def)
  with assms show ?thesis
    by (auto simp: valid_date_def days_before_month_numeral days_before_month_1
        days_in_month_def mdays_def)
qed

lemma toordinal_le_MAXORDINAL:
  assumes "valid_date d"
  shows "toordinal d \<le> MAXORDINAL"
proof -
  have y: "1 \<le> year d" "year d \<le> 9999"
    using assms by (simp_all add: valid_date_def MINYEAR_def MAXYEAR_def)
  have "toordinal d \<le> days_before_year (Suc (year d))"
    using days_in_year_le [OF assms] y
    by (simp add: toordinal_def days_before_year_Suc split: if_splits)
  also have "\<dots> \<le> days_before_year 10000"
    using y by (intro days_before_year_mono) simp
  also have "\<dots> = MAXORDINAL"
    by (simp add: days_before_year_def MAXORDINAL_def)
  finally show ?thesis .
qed

lemma next_day_toordinal:
  assumes "valid_date d" "next_day d = Inr d'"
  shows "toordinal d' = Suc (toordinal d) \<and> valid_date d'"
proof -
  from assms(1) have v: "1 \<le> year d" "year d \<le> 9999" "1 \<le> month d" "month d \<le> 12"
    "1 \<le> day d" "day d \<le> days_in_month (year d) (month d)"
    by (simp_all add: valid_date_def MINYEAR_def MAXYEAR_def)
  consider (same) "day d < days_in_month (year d) (month d)"
    | (month) "day d = days_in_month (year d) (month d)" "month d < 12"
    | (year) "day d = days_in_month (year d) (month d)" "month d = 12" "year d < 9999"
    | (over) "day d = days_in_month (year d) (month d)" "month d = 12" "year d = 9999"
    using v by linarith
  then show ?thesis
  proof cases
    case same
    with assms v show ?thesis
      by (auto simp: next_day_def toordinal_def valid_date_def MINYEAR_def MAXYEAR_def)
  next
    case month
    have "28 \<le> days_in_month (year d) (Suc (month d))"
      using month v by (intro days_in_month_ge) simp_all
    with month assms v show ?thesis
      by (auto simp: next_day_def toordinal_def valid_date_def MINYEAR_def MAXYEAR_def
          days_before_month_Suc)
  next
    case year
    have "days_before_month (year d) 12 + 31 = (if isleap (year d) then 366 else 365)"
      by (simp add: days_before_month_numeral days_before_month_1 days_in_month_def mdays_def)
    moreover have "days_in_month (year d) 12 = 31" "days_in_month (Suc (year d)) (Suc 0) = 31"
      by (simp_all add: days_in_month_def mdays_def)
    ultimately show ?thesis
      using year assms v
      by (auto simp: next_day_def toordinal_def valid_date_def MINYEAR_def MAXYEAR_def
          days_before_year_Suc days_before_month_1)
  next
    case over
    with assms show ?thesis by (simp add: next_day_def MAXYEAR_def)
  qed
qed

lemma next_day_overflow:
  assumes "valid_date d"
  shows "(\<exists>e. next_day d = Inl e) \<longleftrightarrow> toordinal d = MAXORDINAL"
proof
  assume "\<exists>e. next_day d = Inl e"
  then have "year d = 9999 \<and> month d = 12 \<and> day d = 31"
    using assms
    by (auto simp: next_day_def valid_date_def MAXYEAR_def days_in_month_def mdays_def
        split: if_splits)
  then show "toordinal d = MAXORDINAL"
    by (simp add: toordinal_def days_before_year_def MAXORDINAL_def days_before_month_numeral
        days_before_month_1 days_in_month_def mdays_def isleap_def)
next
  assume m: "toordinal d = MAXORDINAL"
  show "\<exists>e. next_day d = Inl e"
  proof (cases "next_day d")
    case (Inl e) then show ?thesis by blast
  next
    case (Inr d')
    from next_day_toordinal [OF assms Inr] toordinal_le_MAXORDINAL [of d'] m
    show ?thesis by simp
  qed
qed

lemma add_days_toordinal:
  assumes "valid_date d"
  shows "(toordinal d + n \<le> MAXORDINAL \<longrightarrow>
            (\<exists>e. add_days n d = Inr e \<and> valid_date e \<and> toordinal e = toordinal d + n)) \<and>
         (MAXORDINAL < toordinal d + n \<longrightarrow>
            add_days n d = Inl (OverflowError ''date value out of range''))"
  using assms
proof (induction n arbitrary: d)
  case 0
  then show ?case using toordinal_le_MAXORDINAL [of d] by simp
next
  case (Suc n)
  show ?case
  proof (cases "next_day d")
    case (Inl e)
    then have "toordinal d = MAXORDINAL"
      using next_day_overflow [OF Suc.prems] by blast
    moreover from Inl have "e = OverflowError ''date value out of range''"
      by (auto simp: next_day_def split: if_splits)
    ultimately show ?thesis using Inl by simp
  next
    case (Inr d')
    from next_day_toordinal [OF Suc.prems Inr]
    have "toordinal d' = Suc (toordinal d)" "valid_date d'" by simp_all
    with Suc.IH [of d'] Inr show ?thesis by simp
  qed
qed

lemma date_less_trans: "date_less a b \<Longrightarrow> date_less b c \<Longrightarrow> date_less a c"
  by (auto simp: date_less_def)

lemma next_day_greater: "next_day d = Inr d' \<Longrightarrow> date_less d d'"
  by (auto simp: next_day_def date_less_def split: if_splits)

lemma add_days_greater: "add_days (Suc n) d = Inr d' \<Longrightarrow> date_less d d'"
proof (induction n arbitrary: d)
  case 0
  then show ?case by (auto split: sum.splits dest: next_day_greater)
next
  case (Suc n)
  from Suc.prems obtain d1 where d1: "next_day d = Inr d1" "add_days (Suc n) d1 = Inr d'"
    by (auto split: sum.splits)
  from next_day_greater [OF d1(1)] Suc.IH [OF d1(2)] show ?case
    by (rule date_less_trans)
qed

lemma expected_after_last:
  assumes "last_completed_date h = Some l" "expected_next_date h = Inr (Some e)"
  shows "date_less l e"
proof -
  consider (daily) "periodicity h = ''daily''"
    | (weekly) "periodicity h \<noteq> ''daily''" "periodicity h = ''weekly''"
    | (monthly) "periodicity h \<noteq> ''daily''" "periodicity h \<noteq> ''weekly''"
    by blast
  then show ?thesis
  proof cases
    case daily
    with assms have "add_days (Suc 0) l = Inr e"
      by (auto simp: expected_next_date_def map_sum_def split: sum.splits)
    then show ?thesis by (rule add_days_greater)
  next
    case weekly
    with assms have "add_days (Suc 6) l = Inr e"
      by (auto simp: expected_next_date_def map_sum_def numeral_eq_Suc split: sum.splits)
    then show ?thesis by (rule add_days_greater)
  next
    case monthly
    with assms show ?thesis
      by (auto simp: expected_next_date_def map_sum_def Let_def date_new_def date_less_def
          monthrange_ndays_def split: sum.splits if_splits)
  qed
qed

lemma toordinal_le_next_year:
  assumes "valid_date d"
  shows "toordinal d \<le> days_before_year (Suc (year d))"
  using days_in_year_le [OF assms] assms
  by (simp add: toordinal_def days_before_year_Suc valid_date_def MINYEAR_def split: if_splits)

lemma days_before_month_mono:
  assumes "1 \<le> m" "m \<le> m'"
  shows "days_before_month y m \<le> days_before_month y m'"
  using assms(2)
proof (induction m' rule: dec_induct)
  case base then show ?case by simp
next
  case (step n)
  with assms(1) show ?case by (simp add: days_before_month_Suc)
qed

lemma toordinal_strict_mono:
  assumes "valid_date a" "valid_date b" "date_less a b"
  shows "toordinal a < toordinal b"
proof -
  from assms(1,2) have v: "1 \<le> month a" "day a \<le> days_in_month (year a) (month a)" "1 \<le> day b"
    by (simp_all add: valid_date_def)
  consider (y) "year a < year b"
    | (m) "year a = year b" "month a < month b"
    | (d) "year a = year b" "month a = month b" "day a < day b"
    using assms(3) by (auto simp: date_less_def)
  then show ?thesis
  proof cases
    case y
    have "toordinal a \<le> days_before_year (Suc (year a))"
      by (rule toordinal_le_next_year [OF assms(1)])
    also have "\<dots> \<le> days_before_year (year b)"
      using y by (intro days_before_year_mono) simp
    also have "\<dots> < toordinal b"
      using v by (simp add: toordinal_def)
    finally show ?thesis .
  next
    case m
    have "days_before_month (year a) (month a) + day a \<le> days_before_month (year a) (Suc (month a))"
      using v by (simp add: days_before_month_Suc)
    also have "\<dots> \<le> days_before_month (year a) (month b)"
      using m v by (intro days_before_month_mono) simp_all
    finally show ?thesis using m v by (simp add: toordinal_def)
  next
    case d
    then show ?thesis by (simp add: toordinal_def)
  qed
qed

lemma toordinal_inj:
  assumes "valid_date a" "valid_date b" "toordinal a = toordinal b"
  shows "a = b"
  using date_less_trichotomy [of a b] toordinal_strict_mono [OF assms(1,2)]
    toordinal_strict_mono [OF assms(2,1)] assms(3)
  by auto

section \<open>The streak transition\<close>

text \<open>
  Claim C1. For every habit state and every completion date, \<open>check_off\<close> follows the
  transition rule. Without a previous completion the call returns and the streak is 1.
  With a previous completion and \<open>expected\<close> the date \<open>_expected_next_date\<close> computes,
  the call returns, exactly one of the three comparisons holds, and the streak is
  one more when the completion date is \<open>expected\<close>, 1 when it is later (whatever the gap),
  and unchanged when it is earlier. When \<open>_expected_next_date\<close> raises, there is no
  expected date, and the call raises the same exception.
\<close>

theorem check_off_transition:
  "(last_completed_date h = None \<longrightarrow> (\<exists>h'. check_off h od today = Inr h' \<and> streak h' = 1))
 \<and> (\<forall>l expected. last_completed_date h = Some l \<and> expected_next_date h = Inr (Some expected) \<longrightarrow>
       (\<exists>h'. check_off h od today = Inr h' \<and>
          (let on_date = (case od of None \<Rightarrow> today | Some d \<Rightarrow> d) in
           (on_date = expected \<longrightarrow> streak h' = streak h + 1) \<and>
           (date_less expected on_date \<longrightarrow> streak h' = 1) \<and>
           (date_less on_date expected \<longrightarrow> streak h' = streak h) \<and>
           (on_date = expected \<or> date_less expected on_date \<or> date_less on_date expected))))
 \<and> (\<forall>l err. last_completed_date h = Some l \<and> expected_next_date h = Inl err \<longrightarrow>
       check_off h od today = Inl err)"
  using date_less_trichotomy
  by (auto simp: check_off_def Let_def date_less_irrefl dest: date_less_asym split: option.splits)

lemma call_family_expected:
  "expected_next_date call_family = Inr (Some \<lparr>year = 2025, month = 1, day = 20\<rparr>)"
  by (simp add: expected_next_date_def call_family_def add_days_numeral next_day_def calendar_defs)

text \<open>
  The weekly example of the specification: after the completion of 13 January the expected
  date is 20 January; a completion on 27 January resets the streak to 1.
\<close>

theorem check_off_transition_witness:
  "last_completed_date call_family = Some \<lparr>year = 2025, month = 1, day = 13\<rparr> \<and>
   expected_next_date call_family = Inr (Some \<lparr>year = 2025, month = 1, day = 20\<rparr>) \<and>
   date_less \<lparr>year = 2025, month = 1, day = 20\<rparr> \<lparr>year = 2025, month = 1, day = 27\<rparr> \<and>
   (\<exists>h'. check_off call_family (Some \<lparr>year = 2025, month = 1, day = 27\<rparr>)
            \<lparr>year = 2025, month = 2, day = 1\<rparr> = Inr h' \<and> streak h' = 1)"
proof -
  have l: "last_completed_date call_family = Some \<lparr>year = 2025, month = 1, day = 13\<rparr>"
    by (simp add: call_family_def)
  have lt: "date_less \<lparr>year = 2025, month = 1, day = 20\<rparr> \<lparr>year = 2025, month = 1, day = 27\<rparr>"
    by (simp add: date_less_def)
  from check_off_transition [of call_family "Some \<lparr>year = 2025, month = 1, day = 27\<rparr>"
      "\<lparr>year = 2025, month = 2, day = 1\<rparr>"] l call_family_expected lt
  show ?thesis by (auto simp: Let_def)
qed

section \<open>The expected date\<close>

lemma expected_next_date_returns:
  assumes "last_completed_date h = Some l" and "valid_date l"
  shows "(\<exists>e. expected_next_date h = Inr (Some e)) \<longleftrightarrow> next_date_representable (periodicity h) l"
proof -
  from assms(2) have v: "1 \<le> year l" "year l \<le> 9999" "1 \<le> month l" "month l \<le> 12" "1 \<le> day l"
    by (simp_all add: valid_date_def MINYEAR_def MAXYEAR_def)
  have dim: "Suc 0 \<le> days_in_month y (Suc (month l))" if "month l \<noteq> 12" for y
    using that v days_in_month_ge [of "Suc (month l)" y] by simp
  have jan: "days_in_month y (Suc 0) = 31" for y
    by (simp add: days_in_month_def mdays_def)
  consider (daily) "periodicity h = ''daily''"
    | (weekly) "periodicity h \<noteq> ''daily''" "periodicity h = ''weekly''"
    | (monthly) "periodicity h \<noteq> ''daily''" "periodicity h \<noteq> ''weekly''"
    by blast
  then show ?thesis
  proof cases
    case daily
    with add_days_toordinal [OF assms(2), of 1] assms(1) show ?thesis
      by (cases "toordinal l + 1 \<le> MAXORDINAL")
        (auto simp: expected_next_date_def next_date_representable_def)
  next
    case weekly
    with add_days_toordinal [OF assms(2), of 7] assms(1) show ?thesis
      by (cases "toordinal l + 7 \<le> MAXORDINAL")
        (auto simp: expected_next_date_def next_date_representable_def)
  next
    case monthly
    with assms(1) v dim jan show ?thesis
      by (auto simp: expected_next_date_def next_date_representable_def Let_def
          monthrange_ndays_def date_new_def MINYEAR_def MAXYEAR_def
          days_in_month_def [symmetric])
  qed
qed

lemma expected_next_date_not_None:
  "last_completed_date h = Some l \<Longrightarrow> expected_next_date h \<noteq> Inr None"
  by (auto simp: expected_next_date_def Let_def map_sum_def split: sum.splits)

text \<open>
  Claim C2. For a habit with a last completion date \<open>l\<close> (a valid date, as every
  \<open>date\<close> object is), the expected date is: for \<open>daily\<close>, the date whose ordinal is
  one more than that of \<open>l\<close>; for \<open>weekly\<close>, seven more; otherwise (the monthly branch)
  the same day of the following month, clamped to the number of days of that month,
  December rolling over to January of the next year. Where that date would be after
  9999-12-31 there is none, and the method raises. By \<open>toordinal_inj\<close> the ordinal
  determines the date.
\<close>

theorem expected_next_date_spec:
  assumes "last_completed_date h = Some l" and "valid_date l"
  shows
    "(periodicity h = ''daily'' \<longrightarrow>
        (if toordinal l + 1 \<le> MAXORDINAL
         then \<exists>e. expected_next_date h = Inr (Some e) \<and> valid_date e \<and>
                  toordinal e = toordinal l + 1
         else expected_next_date h = Inl (OverflowError ''date value out of range''))) \<and>
     (periodicity h = ''weekly'' \<longrightarrow>
        (if toordinal l + 7 \<le> MAXORDINAL
         then \<exists>e. expected_next_date h = Inr (Some e) \<and> valid_date e \<and>
                  toordinal e = toordinal l + 7
         else expected_next_date h = Inl (OverflowError ''date value out of range''))) \<and>
     (periodicity h \<noteq> ''daily'' \<and> periodicity h \<noteq> ''weekly'' \<longrightarrow>
        (if month l = 12 \<and> year l = MAXYEAR
         then expected_next_date h = Inl (ValueError ''year is out of range'')
         else \<exists>e. expected_next_date h = Inr (Some e) \<and> valid_date e \<and>
                  year e = (if month l = 12 then year l + 1 else year l) \<and>
                  month e = (if month l = 12 then 1 else month l + 1) \<and>
                  day e = min (day l) (days_in_month (year e) (month e))))"
proof (intro conjI impI)
  assume p: "periodicity h = ''daily''"
  from add_days_toordinal [OF assms(2), of 1] assms(1) p
  show "if toordinal l + 1 \<le> MAXORDINAL
     then \<exists>e. expected_next_date h = Inr (Some e) \<and> valid_date e \<and> toordinal e = toordinal l + 1
     else expected_next_date h = Inl (OverflowError ''date value out of range'')"
    by (auto simp: expected_next_date_def)
next
  assume p: "periodicity h = ''weekly''"
  from add_days_toordinal [OF assms(2), of 7] assms(1) p
  show "if toordinal l + 7 \<le> MAXORDINAL
     then \<exists>e. expected_next_date h = Inr (Some e) \<and> valid_date e \<and> toordinal e = toordinal l + 7
     else expected_next_date h = Inl (OverflowError ''date value out of range'')"
    by (auto simp: expected_next_date_def)
next
  assume p: "periodicity h \<noteq> ''daily'' \<and> periodicity h \<noteq> ''weekly''"
  from assms(2) have v: "1 \<le> year l" "year l \<le> 9999" "1 \<le> month l" "month l \<le> 12" "1 \<le> day l"
    by (simp_all add: valid_date_def MINYEAR_def MAXYEAR_def)
  have dim: "Suc 0 \<le> days_in_month y (Suc (month l))" if "month l \<noteq> 12" for y
    using that v days_in_month_ge [of "Suc (month l)" y] by simp
  have jan: "days_in_month y (Suc 0) = 31" for y
    by (simp add: days_in_month_def mdays_def)
  show "if month l = 12 \<and> year l = MAXYEAR
     then expected_next_date h = Inl (ValueError ''year is out of range'')
     else \<exists>e. expected_next_date h = Inr (Some e) \<and> valid_date e \<and>
              year e = (if month l = 12 then year l + 1 else year l) \<and>
              month e = (if month l = 12 then 1 else month l + 1) \<and>
              day e = min (day l) (days_in_month (year e) (month e))"
    using assms(1) p v dim jan
    by (auto simp: expected_next_date_def Let_def monthrange_ndays_def date_new_def
        valid_date_def MINYEAR_def MAXYEAR_def days_in_month_def [symmetric])
qed

text \<open>The example of the specification: 31 January 2025 gives 28 February 2025.\<close>

theorem expected_next_date_spec_witness:
  "last_completed_date budget_review = Some \<lparr>year = 2025, month = 1, day = 31\<rparr> \<and>
   valid_date \<lparr>year = 2025, month = 1, day = 31\<rparr> \<and>
   periodicity budget_review \<noteq> ''daily'' \<and> periodicity budget_review \<noteq> ''weekly'' \<and>
   expected_next_date budget_review = Inr (Some \<lparr>year = 2025, month = 2, day = 28\<rparr>)"
proof -
  have l: "last_completed_date budget_review = Some \<lparr>year = 2025, month = 1, day = 31\<rparr>"
    by (simp add: budget_review_def)
  have v: "valid_date \<lparr>year = 2025, month = 1, day = 31\<rparr>"
    by (simp add: valid_date_def calendar_defs)
  have p: "periodicity budget_review \<noteq> ''daily'' \<and> periodicity budget_review \<noteq> ''weekly''"
    by (simp add: budget_review_def)
  from expected_next_date_spec [OF l v] p
  have "\<exists>e. expected_next_date budget_review = Inr (Some e) \<and>
          year e = 2025 \<and> month e = 2 \<and> day e = min 31 (days_in_month 2025 2)"
    by (auto simp: MAXYEAR_def numeral_2_eq_2)
  then obtain e where e: "expected_next_date budget_review = Inr (Some e)"
    "year e = 2025" "month e = 2" "day e = min 31 (days_in_month 2025 2)"
    by blast
  then have "e = \<lparr>year = 2025, month = 2, day = 28\<rparr>"
    by (cases e) (simp add: calendar_defs)
  with l v p e(1) show ?thesis by simp
qed

section \<open>What every check-off guarantees\<close>

text \<open>
  Claim C4, amended. Whenever \<open>check_off\<close> returns, the new state has
  \<open>completed = True\<close> and \<open>last_completed_date\<close> equal to the completion date, for
  every prior state, periodicity and date; a completion on or before the last completion
  date keeps the streak and still overwrites the anchor date. The new streak is at least
  1 when the prior state has no last completion or a streak of at least 1; for other
  prior states it need not be. The call returns when there is no last completion
  or \<open>_expected_next_date\<close> returns, which for a valid last completion date is when the
  next date is representable.
\<close>

theorem check_off_postcondition:
  "(\<forall>h'. check_off h od today = Inr h' \<longrightarrow>
      completed h' \<and>
      last_completed_date h' = Some (case od of None \<Rightarrow> today | Some d \<Rightarrow> d) \<and>
      ((last_completed_date h = None \<or> 1 \<le> streak h) \<longrightarrow> 1 \<le> streak h') \<and>
      (\<forall>l. last_completed_date h = Some l \<and>
           ((case od of None \<Rightarrow> today | Some d \<Rightarrow> d) = l \<or>
            date_less (case od of None \<Rightarrow> today | Some d \<Rightarrow> d) l) \<longrightarrow>
           streak h' = streak h)) \<and>
   ((last_completed_date h = None \<or> (\<exists>e. expected_next_date h = Inr e)) \<longrightarrow>
      (\<exists>h'. check_off h od today = Inr h')) \<and>
   (\<forall>l. last_completed_date h = Some l \<and> valid_date l \<and>
        next_date_representable (periodicity h) l \<longrightarrow> (\<exists>h'. check_off h od today = Inr h'))"
proof (intro conjI allI impI)
  fix h'
  assume r: "check_off h od today = Inr h'"
  then show "completed h'"
    and "last_completed_date h' = Some (case od of None \<Rightarrow> today | Some d \<Rightarrow> d)"
    by (auto simp: check_off_def Let_def split: if_splits sum.splits)
  {
    assume "last_completed_date h = None \<or> 1 \<le> streak h"
    with r show "1 \<le> streak h'"
      by (auto simp: check_off_def Let_def split: if_splits sum.splits)
  }
  {
    fix l
    assume l: "last_completed_date h = Some l \<and>
      ((case od of None \<Rightarrow> today | Some d \<Rightarrow> d) = l \<or>
       date_less (case od of None \<Rightarrow> today | Some d \<Rightarrow> d) l)"
    with r obtain e where e: "expected_next_date h = Inr (Some e)"
      using expected_next_date_not_None [of h l]
      by (cases "expected_next_date h") (auto simp: check_off_def Let_def)
    with l have "date_less l e" by (intro expected_after_last) simp_all
    with l have "date_less (case od of None \<Rightarrow> today | Some d \<Rightarrow> d) e"
      by (auto intro: date_less_trans)
    with r e l show "streak h' = streak h"
      by (auto simp: check_off_def Let_def date_less_irrefl dest: date_less_asym
          split: if_splits)
  }
next
  assume "last_completed_date h = None \<or> (\<exists>e. expected_next_date h = Inr e)"
  then show "\<exists>h'. check_off h od today = Inr h'"
    by (auto simp: check_off_def Let_def)
next
  fix l
  assume "last_completed_date h = Some l \<and> valid_date l \<and>
    next_date_representable (periodicity h) l"
  with expected_next_date_returns [of h l] obtain e where "expected_next_date h = Inr (Some e)"
    by blast
  then show "\<exists>h'. check_off h od today = Inr h'"
    by (auto simp: check_off_def Let_def)
qed

text \<open>
  The claim as stated fails in two ways. On \<open>inconsistent_habit\<close>, a prior state with a
  last completion date and a streak of 0, a same-day completion returns and leaves the
  streak at 0. And a call can raise: on the demo habit after a completion on 9999-12-31,
  a call for 1 January 2025 raises \<open>OverflowError\<close>, and the habit keeps
  9999-12-31 as its last completion date.
\<close>

theorem check_off_postcondition_counterexample:
  "check_off inconsistent_habit (Some \<lparr>year = 2025, month = 1, day = 6\<rparr>)
      \<lparr>year = 2025, month = 1, day = 6\<rparr> =
     Inr (inconsistent_habit\<lparr>completed := True\<rparr>) \<and>
   streak (inconsistent_habit\<lparr>completed := True\<rparr>) = 0 \<and>
   check_off (drink_water\<lparr>completed := True, streak := 1,
            last_completed_date := Some \<lparr>year = 9999, month = 12, day = 31\<rparr>\<rparr>)
      (Some \<lparr>year = 2025, month = 1, day = 1\<rparr>) \<lparr>year = 2025, month = 1, day = 1\<rparr> =
     Inl (OverflowError ''date value out of range'') \<and>
   last_completed_date
     (check_off_state (drink_water\<lparr>completed := True, streak := 1,
            last_completed_date := Some \<lparr>year = 9999, month = 12, day = 31\<rparr>\<rparr>)
        (Some \<lparr>year = 2025, month = 1, day = 1\<rparr>) \<lparr>year = 2025, month = 1, day = 1\<rparr>) =
     Some \<lparr>year = 9999, month = 12, day = 31\<rparr>"
  by (simp add: check_off_state_def check_off_def inconsistent_habit_def drink_water_def
      expected_next_date_def add_days_1 next_day_def calendar_defs date_less_def)

text \<open>
  A time-travel completion of the weekly habit: checked off for 6 January after a last
  completion on 13 January, the streak stays 2 and the anchor date moves back.
\<close>

theorem check_off_postcondition_witness:
  "check_off call_family (Some \<lparr>year = 2025, month = 1, day = 6\<rparr>)
      \<lparr>year = 2025, month = 3, day = 1\<rparr> =
     Inr (call_family\<lparr>last_completed_date := Some \<lparr>year = 2025, month = 1, day = 6\<rparr>\<rparr>) \<and>
   1 \<le> streak call_family \<and>
   date_less \<lparr>year = 2025, month = 1, day = 6\<rparr> \<lparr>year = 2025, month = 1, day = 13\<rparr> \<and>
   streak (call_family\<lparr>last_completed_date := Some \<lparr>year = 2025, month = 1, day = 6\<rparr>\<rparr>) = 2 \<and>
   completed (call_family\<lparr>last_completed_date := Some \<lparr>year = 2025, month = 1, day = 6\<rparr>\<rparr>)"
proof -
  have s: "1 \<le> streak call_family" "last_completed_date call_family = Some \<lparr>year = 2025, month = 1, day = 13\<rparr>"
    by (simp_all add: call_family_def)
  have c: "check_off call_family (Some \<lparr>year = 2025, month = 1, day = 6\<rparr>)
      \<lparr>year = 2025, month = 3, day = 1\<rparr> =
     Inr (call_family\<lparr>last_completed_date := Some \<lparr>year = 2025, month = 1, day = 6\<rparr>\<rparr>)"
    by (simp add: check_off_def call_family_expected date_less_def s(2))
      (simp add: call_family_def)
  have lt: "date_less \<lparr>year = 2025, month = 1, day = 6\<rparr> \<lparr>year = 2025, month = 1, day = 13\<rparr>"
    by (simp add: date_less_def)
  from check_off_postcondition [of call_family "Some \<lparr>year = 2025, month = 1, day = 6\<rparr>"
      "\<lparr>year = 2025, month = 3, day = 1\<rparr>"] c s lt
  show ?thesis by (simp add: call_family_def)
qed

section \<open>Repeating a check-off\<close>

text \<open>
  Claim C10. A second \<open>check_off\<close> with the same date leaves the whole habit state as
  the first call left it, for every prior state, date and periodicity: the state after two
  calls is the state after one. After a first call that returns, \<open>completed\<close> is true
  and \<open>last_completed_date\<close> is the date, and the second call either returns that same
  state or, when the next date after the given one is not representable, raises without
  writing a field.
\<close>

theorem check_off_idempotent:
  "check_off_state (check_off_state h od today) od today = check_off_state h od today \<and>
   (\<forall>h1. check_off h od today = Inr h1 \<longrightarrow>
      completed h1 \<and>
      last_completed_date h1 = Some (case od of None \<Rightarrow> today | Some d \<Rightarrow> d) \<and>
      check_off_state h1 od today = h1 \<and>
      ((\<exists>e. expected_next_date h1 = Inr e) \<longrightarrow> check_off h1 od today = Inr h1) \<and>
      (\<forall>err. expected_next_date h1 = Inl err \<longrightarrow> check_off h1 od today = Inl err) \<and>
      (valid_date (case od of None \<Rightarrow> today | Some d \<Rightarrow> d) \<and>
       next_date_representable (periodicity h) (case od of None \<Rightarrow> today | Some d \<Rightarrow> d) \<longrightarrow>
         check_off h1 od today = Inr h1))"
proof -
  let ?d = "case od of None \<Rightarrow> today | Some d \<Rightarrow> d"
  have step: "completed h1 \<and> last_completed_date h1 = Some ?d \<and>
      check_off_state h1 od today = h1 \<and>
      ((\<exists>e. expected_next_date h1 = Inr e) \<longrightarrow> check_off h1 od today = Inr h1) \<and>
      (\<forall>err. expected_next_date h1 = Inl err \<longrightarrow> check_off h1 od today = Inl err) \<and>
      (valid_date ?d \<and> next_date_representable (periodicity h) ?d \<longrightarrow>
         check_off h1 od today = Inr h1)"
    if first: "check_off h od today = Inr h1" for h1
  proof -
    from first have h1: "last_completed_date h1 = Some ?d" "completed h1"
      "periodicity h1 = periodicity h"
      by (auto simp: check_off_def Let_def split: if_splits sum.splits)
    have ret: "check_off h1 od today = Inr h1" if "expected_next_date h1 = Inr e" for e
    proof -
      from that h1 obtain e' where e': "e = Some e'"
        using expected_next_date_not_None [of h1 ?d] by (cases e) auto
      with that h1 have "date_less ?d e'" by (intro expected_after_last) simp_all
      with that e' h1 show ?thesis
        by (auto simp: check_off_def Let_def date_less_irrefl dest: date_less_asym)
    qed
    have err: "check_off h1 od today = Inl err" if "expected_next_date h1 = Inl err" for err
      using that h1 by (simp add: check_off_def Let_def)
    have rep: "check_off h1 od today = Inr h1"
      if "valid_date ?d" "next_date_representable (periodicity h) ?d"
      using expected_next_date_returns [of h1 ?d] that h1 ret by auto
    have "check_off_state h1 od today = h1"
      using ret err by (cases "expected_next_date h1") (simp_all add: check_off_state_def)
    with h1 ret err rep show ?thesis by blast
  qed
  have "check_off_state (check_off_state h od today) od today = check_off_state h od today"
  proof (cases "check_off h od today")
    case (Inl e)
    then show ?thesis by (simp add: check_off_state_def)
  next
    case (Inr h1)
    with step [OF Inr] show ?thesis by (simp add: check_off_state_def)
  qed
  with step show ?thesis by blast
qed

text \<open>
  The weekly habit, checked off twice for 27 January 2025: the first call resets the
  streak to 1, the second changes nothing.
\<close>

theorem check_off_idempotent_witness:
  "check_off call_family (Some \<lparr>year = 2025, month = 1, day = 27\<rparr>)
      \<lparr>year = 2025, month = 1, day = 27\<rparr> =
     Inr (call_family\<lparr>streak := 1,
            last_completed_date := Some \<lparr>year = 2025, month = 1, day = 27\<rparr>\<rparr>) \<and>
   valid_date \<lparr>year = 2025, month = 1, day = 27\<rparr> \<and>
   next_date_representable (periodicity call_family) \<lparr>year = 2025, month = 1, day = 27\<rparr> \<and>
   check_off (call_family\<lparr>streak := 1,
            last_completed_date := Some \<lparr>year = 2025, month = 1, day = 27\<rparr>\<rparr>)
      (Some \<lparr>year = 2025, month = 1, day = 27\<rparr>) \<lparr>year = 2025, month = 1, day = 27\<rparr> =
     Inr (call_family\<lparr>streak := 1,
            last_completed_date := Some \<lparr>year = 2025, month = 1, day = 27\<rparr>\<rparr>)"
proof -
  have l: "last_completed_date call_family = Some \<lparr>year = 2025, month = 1, day = 13\<rparr>"
    by (simp add: call_family_def)
  have c: "check_off call_family (Some \<lparr>year = 2025, month = 1, day = 27\<rparr>)
      \<lparr>year = 2025, month = 1, day = 27\<rparr> =
     Inr (call_family\<lparr>streak := 1,
            last_completed_date := Some \<lparr>year = 2025, month = 1, day = 27\<rparr>\<rparr>)"
    by (simp add: check_off_def call_family_expected date_less_def l)
      (simp add: call_family_def)
  have v: "valid_date \<lparr>year = 2025, month = 1, day = 27\<rparr>"
    by (simp add: valid_date_def calendar_defs)
  have r: "next_date_representable (periodicity call_family)
      \<lparr>year = 2025, month = 1, day = 27\<rparr>"
    by (simp add: next_date_representable_def call_family_def toordinal_def
        days_before_year_def days_before_month_1 MAXORDINAL_def)
  note second = check_off_idempotent [of call_family
      "Some \<lparr>year = 2025, month = 1, day = 27\<rparr>" "\<lparr>year = 2025, month = 1, day = 27\<rparr>",
      THEN conjunct2, rule_format, OF c]
  from second v r have "check_off (call_family\<lparr>streak := 1,
            last_completed_date := Some \<lparr>year = 2025, month = 1, day = 27\<rparr>\<rparr>)
      (Some \<lparr>year = 2025, month = 1, day = 27\<rparr>) \<lparr>year = 2025, month = 1, day = 27\<rparr> =
     Inr (call_family\<lparr>streak := 1,
            last_completed_date := Some \<lparr>year = 2025, month = 1, day = 27\<rparr>\<rparr>)"
    by simp
  with c v r show ?thesis by (simp only: simp_thms)
qed

text \<open>
  At the last date the second call raises: the first completion on 9999-12-31 returns,
  and the daily expected date of the new state would be one day after 9999-12-31. The
  habit state stays as the first call left it.
\<close>

lemma check_off_twice_at_last_date:
  "check_off drink_water (Some \<lparr>year = 9999, month = 12, day = 31\<rparr>)
      \<lparr>year = 2025, month = 1, day = 1\<rparr> =
     Inr (drink_water\<lparr>completed := True, streak := 1,
            last_completed_date := Some \<lparr>year = 9999, month = 12, day = 31\<rparr>\<rparr>) \<and>
   check_off (drink_water\<lparr>completed := True, streak := 1,
            last_completed_date := Some \<lparr>year = 9999, month = 12, day = 31\<rparr>\<rparr>)
      (Some \<lparr>year = 9999, month = 12, day = 31\<rparr>) \<lparr>year = 2025, month = 1, day = 1\<rparr> =
     Inl (OverflowError ''date value out of range'')"
  by (simp add: check_off_def drink_water_def expected_next_date_def add_days_1
      next_day_def calendar_defs)

section \<open>Parsing what \<open>isoformat\<close> prints\<close>

lemma digit_cases:
  assumes "n < 10"
  shows "n \<in> {0, 1, 2, 3, 4, 5, 6, 7, 8, 9::nat}"
  using assms by (simp only: insert_iff empty_iff) arith

lemma digit_char_digit: "n < 10 \<Longrightarrow> is_digit (digit_char n) \<and> digit_val (digit_char n) = n"
  by (drule digit_cases) (auto simp: is_digit_def digit_val_def digit_char_def)

lemma digit_char_eq:
  "n < 10 \<Longrightarrow> (digit_char n = CHR ''0'') = (n = 0)"
  "n < 10 \<Longrightarrow> (digit_char n = CHR ''1'') = (n = 1)"
  "n < 10 \<Longrightarrow> (digit_char n = CHR ''2'') = (n = 2)"
  "n < 10 \<Longrightarrow> (digit_char n = CHR ''3'') = (n = 3)"
  "n < 10 \<Longrightarrow> digit_char n \<noteq> CHR '' ''"
  by (drule digit_cases, auto simp: digit_char_def)+

lemma in_range_digit_char:
  "n < 10 \<Longrightarrow> in_range (CHR ''0'') (CHR ''1'') (digit_char n) = (n \<le> 1)"
  "n < 10 \<Longrightarrow> in_range (CHR ''0'') (CHR ''2'') (digit_char n) = (n \<le> 2)"
  "n < 10 \<Longrightarrow> in_range (CHR ''0'') (CHR ''3'') (digit_char n) = (n \<le> 3)"
  "n < 10 \<Longrightarrow> in_range (CHR ''0'') (CHR ''5'') (digit_char n) = (n \<le> 5)"
  "n < 10 \<Longrightarrow> in_range (CHR ''1'') (CHR ''2'') (digit_char n) = (1 \<le> n \<and> n \<le> 2)"
  "n < 10 \<Longrightarrow> in_range (CHR ''1'') (CHR ''9'') (digit_char n) = (1 \<le> n)"
  using digit_char_digit [of n] by (auto simp: in_range_def digit_val_def)

lemma digit_char_0: "digit_char 0 = CHR ''0''"
  by (simp add: digit_char_def)

lemma zero_pad_2: "n < 100 \<Longrightarrow> zero_pad 2 n = [digit_char (n div 10), digit_char (n mod 10)]"
  by (cases "n < 10") (simp_all add: zero_pad_def digit_char_0)

lemma str_of_nat_3:
  assumes "100 \<le> n" "n < 1000"
  shows "str_of_nat n = [digit_char (n div 100), digit_char (n div 10 mod 10), digit_char (n mod 10)]"
proof -
  have "n div 10 div 10 = n div 100" by (simp add: div_mult2_eq [symmetric])
  moreover have "\<not> n div 10 < 10" "n div 10 div 10 < 10" using assms by auto
  ultimately show ?thesis using assms
    by (subst str_of_nat.simps, subst str_of_nat.simps, subst str_of_nat.simps) simp
qed

lemma replicate_numeral: "replicate (numeral k) x = x # replicate (pred_numeral k) x"
  by (simp add: numeral_eq_Suc)

lemma zero_pad_4:
  assumes "n < 10000"
  shows "zero_pad 4 n = [digit_char (n div 1000), digit_char (n div 100 mod 10),
                         digit_char (n div 10 mod 10), digit_char (n mod 10)]"
proof -
  consider (a) "n < 10" | (b) "10 \<le> n" "n < 100" | (c) "100 \<le> n" "n < 1000" | (d) "1000 \<le> n"
    by linarith
  then show ?thesis
  proof cases
    case a
    then show ?thesis by (simp add: zero_pad_def digit_char_0 replicate_numeral)
  next
    case b
    then have "str_of_nat n = [digit_char (n div 10), digit_char (n mod 10)]"
      by (subst str_of_nat.simps, subst str_of_nat.simps) simp
    with b show ?thesis by (simp add: zero_pad_def digit_char_0 replicate_numeral)
  next
    case c
    with str_of_nat_3 [of n] show ?thesis by (simp add: zero_pad_def digit_char_0 replicate_numeral)
  next
    case d
    have e: "n div 10 div 100 = n div 1000" "n div 10 div 10 = n div 100"
      by (simp_all add: div_mult2_eq [symmetric])
    have "str_of_nat n = str_of_nat (n div 10) @ [digit_char (n mod 10)]"
      using d by (subst str_of_nat.simps) simp
    also have "str_of_nat (n div 10) = [digit_char (n div 10 div 100),
        digit_char (n div 10 div 10 mod 10), digit_char (n div 10 mod 10)]"
      using d assms by (intro str_of_nat_3) auto
    finally show ?thesis by (simp add: zero_pad_def e)
  qed
qed

lemma decimal_4:
  fixes n :: nat
  shows "1000 * (n div 1000) + 100 * (n div 100 mod 10) + 10 * (n div 10 mod 10) + n mod 10 = n"
proof -
  have e: "n div 10 div 10 = n div 100" "n div 100 div 10 = n div 1000"
    by (simp_all add: div_mult2_eq [symmetric])
  have "n = 10 * (n div 10) + n mod 10" by simp
  also have "n div 10 = 10 * (n div 10 div 10) + n div 10 mod 10" by simp
  also have "n div 10 div 10 = n div 100" by (rule e)
  also have "n div 100 = 10 * (n div 100 div 10) + n div 100 mod 10" by simp
  also have "n div 100 div 10 = n div 1000" by (rule e)
  finally show ?thesis by simp
qed

lemma re_two_digits:
  assumes "a < 10" "b < 10"
  shows "re_two P Q (digit_char a # digit_char b # r) =
           (if P (digit_char a) \<and> Q (digit_char b) then [(10 * a + b, r)] else [])"
  using digit_char_digit [OF assms(1)] digit_char_digit [OF assms(2)]
  by (simp add: re_two_def)

lemma re_one_digit:
  assumes "a < 10"
  shows "re_one P (digit_char a # r) = (if P (digit_char a) then [(a, r)] else [])"
  using digit_char_digit [OF assms] by (simp add: re_one_def)

lemma re_lit_Cons: "re_lit c (c # r) = [((), r)]"
  by (simp add: re_lit_def)

lemma re_Y_pad:
  assumes "y < 10000"
  shows "re_Y (zero_pad 4 y @ r) = [(y, r)]"
proof -
  have d: "y div 1000 < 10" "y div 100 mod 10 < 10" "y div 10 mod 10 < 10" "y mod 10 < 10"
    using assms by simp_all
  show ?thesis
    using d [THEN digit_char_digit] decimal_4 [of y]
    by (simp add: zero_pad_4 [OF assms] re_Y_def)
qed

lemma two_digits:
  fixes n :: nat
  assumes "n < 100"
  obtains a b where "a < 10" "b < 10" "n = 10 * a + b"
proof
  show "n div 10 < 10" "n mod 10 < 10" "n = 10 * (n div 10) + n mod 10"
    using assms by simp_all
qed

lemma zero_pad_2_digits:
  "a < 10 \<Longrightarrow> b < 10 \<Longrightarrow> zero_pad 2 (10 * a + b) = [digit_char a, digit_char b]"
  by (simp add: zero_pad_2)

lemmas matcher_simps = zero_pad_2_digits re_two_digits re_one_digit digit_char_eq
  in_range_digit_char digit_char_digit

lemma re_m_pad:
  assumes "1 \<le> m" "m \<le> 12"
  shows "\<exists>xs. re_m (zero_pad 2 m @ r) = (m, r) # xs"
proof -
  from assms obtain a b where ab: "a < 10" "b < 10" "m = 10 * a + b"
    by (elim two_digits [of m, rotated]) simp
  from ab have pad: "zero_pad 2 m = [digit_char a, digit_char b]"
    by (simp add: zero_pad_2_digits)
  from ab assms consider "a = 0" "1 \<le> b" | "a = 1" "b \<le> 2" by linarith
  then show ?thesis
    unfolding pad re_m_def using ab by cases (simp_all add: matcher_simps)
qed

lemma re_d_pad:
  assumes "1 \<le> d" "d \<le> 31"
  shows "\<exists>xs. re_d (zero_pad 2 d @ r) = (d, r) # xs"
proof -
  from assms obtain a b where ab: "a < 10" "b < 10" "d = 10 * a + b"
    by (elim two_digits [of d, rotated]) simp
  from ab have pad: "zero_pad 2 d = [digit_char a, digit_char b]"
    by (simp add: zero_pad_2_digits)
  from ab assms consider "a = 0" "1 \<le> b" | "a = 1" | "a = 2" | "a = 3" "b \<le> 1" by linarith
  then show ?thesis
    unfolding pad re_d_def using ab by cases (simp_all add: matcher_simps)
qed

lemma re_H_pad:
  assumes "h < 24"
  shows "\<exists>xs. re_H (zero_pad 2 h @ r) = (h, r) # xs"
proof -
  from assms obtain a b where ab: "a < 10" "b < 10" "h = 10 * a + b"
    by (elim two_digits [of h, rotated]) simp
  from ab have pad: "zero_pad 2 h = [digit_char a, digit_char b]"
    by (simp add: zero_pad_2_digits)
  from ab assms consider "a = 0" | "a = 1" | "a = 2" "b \<le> 3" by linarith
  then show ?thesis
    unfolding pad re_H_def using ab by cases (simp_all add: matcher_simps)
qed

lemma re_M_pad:
  assumes "m < 60"
  shows "\<exists>xs. re_M (zero_pad 2 m @ r) = (m, r) # xs"
proof -
  from assms obtain a b where ab: "a < 10" "b < 10" "m = 10 * a + b"
    by (elim two_digits [of m, rotated]) simp
  from ab have pad: "zero_pad 2 m = [digit_char a, digit_char b]"
    by (simp add: zero_pad_2_digits)
  from ab assms have "a \<le> 5" by linarith
  then show ?thesis
    unfolding pad re_M_def using ab by (simp add: matcher_simps)
qed

lemma days_in_month_le: "1 \<le> m \<Longrightarrow> m \<le> 12 \<Longrightarrow> days_in_month y m \<le> 31"
  by (drule (1) month_cases) (auto simp: days_in_month_def mdays_def)

lemma strptime_Ymd_isoformat:
  assumes "valid_date d"
  shows "strptime_Ymd (date_isoformat d) = Inr \<lparr>date_part = d, time_part = midnight\<rparr>"
proof -
  from assms have v: "1 \<le> year d" "year d < 10000" "1 \<le> month d" "month d \<le> 12"
    "1 \<le> day d" "day d \<le> days_in_month (year d) (month d)"
    by (simp_all add: valid_date_def MINYEAR_def MAXYEAR_def)
  with days_in_month_le [of "month d" "year d"] have d31: "day d \<le> 31" by simp
  obtain ms where m: "re_m (zero_pad 2 (month d) @ CHR ''-'' # zero_pad 2 (day d)) =
      (month d, CHR ''-'' # zero_pad 2 (day d)) # ms"
    using re_m_pad [OF v(3,4)] by blast
  obtain ds where dd: "re_d (zero_pad 2 (day d)) = (day d, []) # ds"
    using re_d_pad [OF v(5) d31, of "[]"] by auto
  have "\<exists>rest. match_Ymd (date_isoformat d) = ((year d, month d, day d), []) # rest"
    by (simp add: match_Ymd_def date_isoformat_def re_Y_pad [OF v(2)] re_lit_Cons m dd)
  then obtain rest where "match_Ymd (date_isoformat d) = ((year d, month d, day d), []) # rest"
    by blast
  moreover have "date_new (year d) (month d) (day d) = Inr d"
    using assms by (simp add: date_new_def valid_date_def)
  ultimately show ?thesis by (simp add: strptime_Ymd_def)
qed

lemma strptime_HM_isoformat:
  assumes "hour t < 24" "minute t < 60"
  shows "strptime_HM (time_isoformat_minutes t) =
           Inr \<lparr>date_part = \<lparr>year = 1900, month = 1, day = 1\<rparr>,
                 time_part = \<lparr>hour = hour t, minute = minute t, second = 0, microsecond = 0\<rparr>\<rparr>"
proof -
  obtain hs where h: "re_H (zero_pad 2 (hour t) @ CHR '':'' # zero_pad 2 (minute t)) =
      (hour t, CHR '':'' # zero_pad 2 (minute t)) # hs"
    using re_H_pad [OF assms(1)] by blast
  obtain ms where m: "re_M (zero_pad 2 (minute t)) = (minute t, []) # ms"
    using re_M_pad [OF assms(2), of "[]"] by auto
  have "\<exists>rest. match_HM (time_isoformat_minutes t) = ((hour t, minute t), []) # rest"
    by (simp add: match_HM_def time_isoformat_minutes_def re_lit_Cons h m)
  then obtain rest where "match_HM (time_isoformat_minutes t) = ((hour t, minute t), []) # rest"
    by blast
  then show ?thesis by (simp add: strptime_HM_def)
qed

section \<open>Building a habit from form strings\<close>

lemma strptime_Ymd_error: "strptime_Ymd s = Inl e \<Longrightarrow> \<exists>msg. e = ValueError msg"
  by (auto simp: strptime_Ymd_def date_new_def split: list.splits if_splits sum.splits prod.splits)

lemma strptime_HM_error: "strptime_HM s = Inl e \<Longrightarrow> \<exists>msg. e = ValueError msg"
  by (auto simp: strptime_HM_def split: list.splits if_splits prod.splits)

lemma from_form_Inr:
  "from_form n ds g sd p r = Inr h \<longleftrightarrow>
     (\<exists>dt rt. strptime_Ymd sd = Inr dt \<and>
        (if r \<noteq> None \<and> r \<noteq> Some [] then map_sum id (\<lambda>t. Some (time_part t)) (strptime_HM (the r))
         else Inr None) = Inr rt \<and>
        p \<in> {''daily'', ''weekly'', ''monthly''} \<and>
        h = \<lparr>name = n, description = ds, goal = g, start_date = dt, periodicity = p,
             reminder = rt, completed = False, streak = 0, last_completed_date = None\<rparr>)"
  by (auto simp: from_form_def split: sum.splits)

text \<open>
  Claim C8, amended. \<open>from_form\<close> fails exactly when the start date does not parse as
  \<open>%Y-%m-%d\<close>, or a reminder that is neither absent nor the empty string does not parse
  as \<open>%H:%M\<close>, or the periodicity is not one of \<open>daily\<close>, \<open>weekly\<close>, \<open>monthly\<close>.
  Every failure is a \<open>ValueError\<close>, which the caller catches; when both strings parse,
  the periodicity failure carries the descriptive message of the source. An absent or
  empty reminder gives a habit without reminder.
\<close>

theorem from_form_errors:
  "((\<exists>e. from_form n ds g sd p r = Inl e) \<longleftrightarrow>
      ((\<exists>e. strptime_Ymd sd = Inl e) \<or>
       (r \<noteq> None \<and> r \<noteq> Some [] \<and> (\<exists>e. strptime_HM (the r) = Inl e)) \<or>
       p \<notin> {''daily'', ''weekly'', ''monthly''})) \<and>
   (\<forall>e. from_form n ds g sd p r = Inl e \<longrightarrow> (\<exists>msg. e = ValueError msg)) \<and>
   ((\<exists>dt. strptime_Ymd sd = Inr dt) \<and>
    (r = None \<or> r = Some [] \<or> (\<exists>t. strptime_HM (the r) = Inr t)) \<and>
    p \<notin> {''daily'', ''weekly'', ''monthly''} \<longrightarrow>
      from_form n ds g sd p r =
        Inl (ValueError ''Periodicity must be one of: daily, weekly, monthly.'')) \<and>
   (\<forall>h. from_form n ds g sd p r = Inr h \<and> (r = None \<or> r = Some []) \<longrightarrow> reminder h = None)"
proof (intro conjI allI impI)
  show "(\<exists>e. from_form n ds g sd p r = Inl e) \<longleftrightarrow>
      ((\<exists>e. strptime_Ymd sd = Inl e) \<or>
       (r \<noteq> None \<and> r \<noteq> Some [] \<and> (\<exists>e. strptime_HM (the r) = Inl e)) \<or>
       p \<notin> {''daily'', ''weekly'', ''monthly''})"
    by (cases "strptime_Ymd sd"; cases "strptime_HM (the r)")
      (auto simp: from_form_def)
next
  fix e assume "from_form n ds g sd p r = Inl e"
  then show "\<exists>msg. e = ValueError msg"
    by (cases "strptime_Ymd sd"; cases "strptime_HM (the r)")
      (auto simp: from_form_def dest: strptime_Ymd_error strptime_HM_error split: if_splits)
next
  assume "(\<exists>dt. strptime_Ymd sd = Inr dt) \<and>
    (r = None \<or> r = Some [] \<or> (\<exists>t. strptime_HM (the r) = Inr t)) \<and>
    p \<notin> {''daily'', ''weekly'', ''monthly''}"
  then show "from_form n ds g sd p r =
        Inl (ValueError ''Periodicity must be one of: daily, weekly, monthly.'')"
    by (auto simp: from_form_def)
next
  fix h assume "from_form n ds g sd p r = Inr h \<and> (r = None \<or> r = Some [])"
  then show "reminder h = None"
    by (auto simp: from_form_Inr)
qed

text \<open>
  The claim as stated (a supplied reminder that does not parse raises) fails for the
  empty string: it does not parse as \<open>%H:%M\<close>, and \<open>from_form\<close> returns a habit
  without reminder, because \<open>if reminder:\<close> is false for it.
\<close>

lemma strptime_HM_empty: "strptime_HM [] = Inl (ValueError ''time data does not match format'')"
  by (simp add: strptime_HM_def match_HM_def re_H_def re_two_def re_one_def)

theorem from_form_errors_counterexample:
  "strptime_HM [] = Inl (ValueError ''time data does not match format'') \<and>
   from_form ''Read'' ''Read 10 pages'' ''Learning'' ''2025-01-06'' ''daily'' (Some []) =
     Inr \<lparr>name = ''Read'', description = ''Read 10 pages'', goal = ''Learning'',
          start_date = \<lparr>date_part = \<lparr>year = 2025, month = 1, day = 6\<rparr>, time_part = midnight\<rparr>,
          periodicity = ''daily'', reminder = None, completed = False, streak = 0,
          last_completed_date = None\<rparr>"
proof -
  have v: "valid_date \<lparr>year = 2025, month = 1, day = 6\<rparr>"
    by (simp add: valid_date_def calendar_defs)
  have "date_isoformat \<lparr>year = 2025, month = 1, day = 6\<rparr> = ''2025-01-06''"
    by (simp add: date_isoformat_def zero_pad_def digit_char_def)
  with strptime_Ymd_isoformat [OF v]
  have "strptime_Ymd ''2025-01-06'' =
      Inr \<lparr>date_part = \<lparr>year = 2025, month = 1, day = 6\<rparr>, time_part = midnight\<rparr>"
    by simp
  then show ?thesis by (simp add: from_form_def strptime_HM_empty)
qed

text \<open>An unknown periodicity with a start date that parses.\<close>

theorem from_form_errors_witness:
  "(\<exists>dt. strptime_Ymd ''2025-01-06'' = Inr dt) \<and>
   ''yearly'' \<notin> {''daily'', ''weekly'', ''monthly''} \<and>
   from_form ''Read'' ''Read 10 pages'' ''Learning'' ''2025-01-06'' ''yearly'' None =
     Inl (ValueError ''Periodicity must be one of: daily, weekly, monthly.'')"
proof -
  have v: "valid_date \<lparr>year = 2025, month = 1, day = 6\<rparr>"
    by (simp add: valid_date_def calendar_defs)
  have "date_isoformat \<lparr>year = 2025, month = 1, day = 6\<rparr> = ''2025-01-06''"
    by (simp add: date_isoformat_def zero_pad_def digit_char_def)
  with strptime_Ymd_isoformat [OF v]
  have dt: "\<exists>dt. strptime_Ymd ''2025-01-06'' = Inr dt" by simp
  have p: "''yearly'' \<notin> {''daily'', ''weekly'', ''monthly''}" by simp
  from from_form_errors [of "''Read''" "''Read 10 pages''" "''Learning''" "''2025-01-06''"
      "''yearly''" None, THEN conjunct2, THEN conjunct2, THEN conjunct1] dt p
  have "from_form ''Read'' ''Read 10 pages'' ''Learning'' ''2025-01-06'' ''yearly'' None =
     Inl (ValueError ''Periodicity must be one of: daily, weekly, monthly.'')"
    by blast
  with dt p show ?thesis by blast
qed

text \<open>
  Claim C9. For every calendar date and every time of day in whole minutes, written as
  form strings the way \<open>isoformat\<close> prints them (\<open>YYYY-MM-DD\<close>, \<open>HH:MM\<close>), and
  every recognised periodicity, \<open>from_form\<close> returns a habit whose start date is that
  date (at midnight) and whose reminder is that time.
\<close>

theorem from_form_roundtrip:
  assumes "valid_date d" and "hour t < 24" and "minute t < 60"
    and "second t = 0" and "microsecond t = 0"
    and "p \<in> {''daily'', ''weekly'', ''monthly''}"
  shows "\<exists>h. from_form n ds g (date_isoformat d) p (Some (time_isoformat_minutes t)) = Inr h \<and>
             date_part (start_date h) = d \<and> time_part (start_date h) = midnight \<and>
             reminder h = Some t"
proof -
  have ne: "time_isoformat_minutes t \<noteq> []"
    by (simp add: time_isoformat_minutes_def)
  have t: "\<lparr>hour = hour t, minute = minute t, second = 0, microsecond = 0\<rparr> = t"
    using assms(4,5) by (cases t) simp
  show ?thesis
    using assms(6) ne t
    by (simp add: from_form_def strptime_Ymd_isoformat [OF assms(1)]
        strptime_HM_isoformat [OF assms(2,3)])
qed

text \<open>The strings of the specification's example: 2025-01-06, daily, 09:00.\<close>

theorem from_form_roundtrip_witness:
  "valid_date \<lparr>year = 2025, month = 1, day = 6\<rparr> \<and>
   date_isoformat \<lparr>year = 2025, month = 1, day = 6\<rparr> = ''2025-01-06'' \<and>
   time_isoformat_minutes \<lparr>hour = 9, minute = 0, second = 0, microsecond = 0\<rparr> = ''09:00'' \<and>
   (\<exists>h. from_form ''Drink Water'' ''8 glasses'' ''Hydration'' ''2025-01-06'' ''daily''
           (Some ''09:00'') = Inr h \<and>
        date_part (start_date h) = \<lparr>year = 2025, month = 1, day = 6\<rparr> \<and>
        reminder h = Some \<lparr>hour = 9, minute = 0, second = 0, microsecond = 0\<rparr>)"
proof -
  have v: "valid_date \<lparr>year = 2025, month = 1, day = 6\<rparr>"
    by (simp add: valid_date_def calendar_defs)
  have d: "date_isoformat \<lparr>year = 2025, month = 1, day = 6\<rparr> = ''2025-01-06''"
    by (simp add: date_isoformat_def zero_pad_def digit_char_def)
  have t: "time_isoformat_minutes \<lparr>hour = 9, minute = 0, second = 0, microsecond = 0\<rparr> = ''09:00''"
    by (simp add: time_isoformat_minutes_def zero_pad_def digit_char_def)
  note rt = from_form_roundtrip [OF v, of "\<lparr>hour = 9, minute = 0, second = 0, microsecond = 0\<rparr>"
      "''daily''" "''Drink Water''" "''8 glasses''" "''Hydration''", unfolded d t]
  from rt have "\<exists>h. from_form ''Drink Water'' ''8 glasses'' ''Hydration'' ''2025-01-06'' ''daily''
           (Some ''09:00'') = Inr h \<and>
        date_part (start_date h) = \<lparr>year = 2025, month = 1, day = 6\<rparr> \<and>
        reminder h = Some \<lparr>hour = 9, minute = 0, second = 0, microsecond = 0\<rparr>"
    by auto
  with v d t show ?thesis by blast
qed

section \<open>The invariant of the streak\<close>

lemma check_off_step:
  assumes "habit_invariant h" and "0 \<le> streak h"
  shows "habit_invariant (check_off_state h od today) \<and>
         0 \<le> streak (check_off_state h od today) \<and>
         (streak h \<le> streak (check_off_state h od today) \<or>
          (streak (check_off_state h od today) = 1 \<and>
           (\<exists>l e. last_completed_date h = Some l \<and> expected_next_date h = Inr (Some e) \<and>
                  date_less e (case od of None \<Rightarrow> today | Some d \<Rightarrow> d))))"
proof (cases "last_completed_date h")
  case None
  with assms show ?thesis
    by (simp add: check_off_state_def check_off_def habit_invariant_def)
next
  case (Some l)
  with assms have pos: "1 \<le> streak h" by (simp add: habit_invariant_def)
  show ?thesis
  proof (cases "expected_next_date h")
    case (Inl err)
    with Some assms show ?thesis
      by (simp add: check_off_state_def check_off_def)
  next
    case (Inr e)
    with Some obtain e' where "e = Some e'"
      using expected_next_date_not_None [of h l] by (cases e) auto
    with Inr Some pos show ?thesis
      by (auto simp: check_off_state_def check_off_def habit_invariant_def Let_def)
  qed
qed

lemma reachable_invariant: "reachable h \<Longrightarrow> habit_invariant h \<and> 0 \<le> streak h"
proof (induction rule: reachable.induct)
  case (created n ds g sd p r h)
  then show ?case by (auto simp: from_form_Inr habit_invariant_def)
next
  case (checked h od today h')
  with check_off_step [of h od today] show ?case
    by (simp add: check_off_state_def)
qed

text \<open>
  Claim C5. A habit built by \<open>from_form\<close> has streak 0, is not completed, has no
  last completion date, and so satisfies the invariant (streak 0 exactly when there is no
  last completion date). Every state reachable from such a habit by \<open>check_off\<close> calls
  satisfies it, with a non-negative streak. And on every state with the invariant and a
  non-negative streak, one \<open>check_off\<close> call (returning or raising) keeps both, and
  the streak does not decrease unless it becomes exactly 1 on a completion after the
  expected date.
\<close>

theorem streak_invariant:
  "(\<forall>h0. from_form n ds g sd p r = Inr h0 \<longrightarrow>
       streak h0 = 0 \<and> \<not> completed h0 \<and> last_completed_date h0 = None \<and> habit_invariant h0) \<and>
   (reachable h \<longrightarrow> habit_invariant h \<and> 0 \<le> streak h) \<and>
   (habit_invariant h \<and> 0 \<le> streak h \<longrightarrow>
      habit_invariant (check_off_state h od today) \<and>
      0 \<le> streak (check_off_state h od today) \<and>
      (streak h \<le> streak (check_off_state h od today) \<or>
       (streak (check_off_state h od today) = 1 \<and>
        (\<exists>l e. last_completed_date h = Some l \<and> expected_next_date h = Inr (Some e) \<and>
               date_less e (case od of None \<Rightarrow> today | Some d \<Rightarrow> d)))))"
  using check_off_step [of h od today] reachable_invariant [of h]
  by (auto simp: from_form_Inr habit_invariant_def)

text \<open>
  The first demo habit: built by \<open>from_form\<close>, then checked off for the first time on
  6 January 2025.
\<close>

lemma from_form_drink_water:
  "from_form ''Drink Water'' ''8 glasses'' ''Hydration'' ''2025-01-01'' ''daily'' (Some ''09:00'') =
     Inr drink_water"
proof -
  have v: "valid_date \<lparr>year = 2025, month = 1, day = 1\<rparr>"
    by (simp add: valid_date_def calendar_defs)
  have d: "date_isoformat \<lparr>year = 2025, month = 1, day = 1\<rparr> = ''2025-01-01''"
    by (simp add: date_isoformat_def zero_pad_def digit_char_def)
  have t: "time_isoformat_minutes \<lparr>hour = 9, minute = 0, second = 0, microsecond = 0\<rparr> = ''09:00''"
    by (simp add: time_isoformat_minutes_def zero_pad_def digit_char_def)
  have "strptime_Ymd ''2025-01-01'' =
      Inr \<lparr>date_part = \<lparr>year = 2025, month = 1, day = 1\<rparr>, time_part = midnight\<rparr>"
    using strptime_Ymd_isoformat [OF v, unfolded d] .
  moreover have "strptime_HM ''09:00'' =
      Inr \<lparr>date_part = \<lparr>year = 1900, month = 1, day = 1\<rparr>,
            time_part = \<lparr>hour = 9, minute = 0, second = 0, microsecond = 0\<rparr>\<rparr>"
    using strptime_HM_isoformat [of "\<lparr>hour = 9, minute = 0, second = 0, microsecond = 0\<rparr>",
        unfolded t]
    by simp
  ultimately show ?thesis
    by (simp add: from_form_def drink_water_def midnight_def)
qed

theorem streak_invariant_witness:
  "from_form ''Drink Water'' ''8 glasses'' ''Hydration'' ''2025-01-01'' ''daily'' (Some ''09:00'') =
     Inr drink_water \<and>
   reachable drink_water \<and> habit_invariant drink_water \<and> streak drink_water = 0 \<and>
   check_off_state drink_water (Some \<lparr>year = 2025, month = 1, day = 6\<rparr>)
      \<lparr>year = 2025, month = 1, day = 6\<rparr> =
     drink_water\<lparr>completed := True, streak := 1,
       last_completed_date := Some \<lparr>year = 2025, month = 1, day = 6\<rparr>\<rparr> \<and>
   habit_invariant (check_off_state drink_water (Some \<lparr>year = 2025, month = 1, day = 6\<rparr>)
      \<lparr>year = 2025, month = 1, day = 6\<rparr>)"
proof -
  note f = from_form_drink_water
  have r: "reachable drink_water" by (rule reachable.created [OF f])
  have c: "check_off_state drink_water (Some \<lparr>year = 2025, month = 1, day = 6\<rparr>)
      \<lparr>year = 2025, month = 1, day = 6\<rparr> =
     drink_water\<lparr>completed := True, streak := 1,
       last_completed_date := Some \<lparr>year = 2025, month = 1, day = 6\<rparr>\<rparr>"
    by (simp add: check_off_state_def check_off_def drink_water_def)
  note s = streak_invariant [of "''Drink Water''" "''8 glasses''" "''Hydration''" "''2025-01-01''"
      "''daily''" "Some ''09:00''" drink_water "Some \<lparr>year = 2025, month = 1, day = 6\<rparr>"
      "\<lparr>year = 2025, month = 1, day = 6\<rparr>"]
  from s f r have i: "habit_invariant drink_water" "streak drink_water = 0" by blast+
  with s have "habit_invariant (check_off_state drink_water
      (Some \<lparr>year = 2025, month = 1, day = 6\<rparr>) \<lparr>year = 2025, month = 1, day = 6\<rparr>)"
    by simp
  with f r i c show ?thesis by (simp only: simp_thms)
qed

section \<open>Analytics\<close>

lemma as_view_habit_row:
  assumes "habit_row r"
  shows "\<exists>v. as_view r = Inr v \<and> view_id v = row_id r \<and> view_streak v = row_streak r"
  using assms
  by (auto simp: habit_row_def as_view_def getitem_def get_def py_int_def py_str_def
      row_id_def row_streak_def split: option.splits pyval.splits)

lemma list_map_Inr:
  assumes "\<forall>x \<in> set xs. \<exists>y. f x = Inr y"
  shows "\<exists>ys. list_map f xs = Inr ys \<and> length ys = length xs \<and>
              (\<forall>i < length xs. f (xs ! i) = Inr (ys ! i))"
  using assms
proof (induction xs)
  case Nil
  then show ?case by simp
next
  case (Cons x xs)
  then obtain y ys where y: "f x = Inr y" and ys: "list_map f xs = Inr ys"
    "length ys = length xs" "\<forall>i < length xs. f (xs ! i) = Inr (ys ! i)"
    by auto
  then show ?case by (auto simp: nth_Cons split: nat.splits)
qed

lemma foldl_max_first:
  fixes f :: "'a \<Rightarrow> int"
  defines "step \<equiv> \<lambda>best v. if f best < f v then v else best"
  shows "\<exists>i < length (x # xs). foldl step x xs = (x # xs) ! i \<and>
           (\<forall>j < length (x # xs). f ((x # xs) ! j) \<le> f ((x # xs) ! i)) \<and>
           (\<forall>j < i. f ((x # xs) ! j) < f ((x # xs) ! i))"
proof (induction xs rule: rev_induct)
  case Nil
  then show ?case by simp
next
  case (snoc y xs)
  then obtain i where i: "i < length (x # xs)" "foldl step x xs = (x # xs) ! i"
    "\<forall>j < length (x # xs). f ((x # xs) ! j) \<le> f ((x # xs) ! i)"
    "\<forall>j < i. f ((x # xs) ! j) < f ((x # xs) ! i)"
    by blast
  let ?zs = "x # xs @ [y]"
  have zs: "?zs = (x # xs) @ [y]" by simp
  show ?case
  proof (cases "f ((x # xs) ! i) < f y")
    case True
    have "foldl step x (xs @ [y]) = ?zs ! length (x # xs)"
      using True i(2) by (simp add: step_def nth_append)
    moreover have "\<forall>j < length ?zs. f (?zs ! j) \<le> f (?zs ! length (x # xs))"
    proof (intro allI impI)
      fix j assume "j < length ?zs"
      then consider "j < length (x # xs)" | "j = length (x # xs)" by fastforce
      then show "f (?zs ! j) \<le> f (?zs ! length (x # xs))"
      proof cases
        case 1
        with i(3) True have "f ((x # xs) ! j) < f y" by fastforce
        with 1 show ?thesis unfolding zs by (simp add: nth_append del: append_Cons)
      next
        case 2
        then show ?thesis by simp
      qed
    qed
    moreover have "\<forall>j < length (x # xs). f (?zs ! j) < f (?zs ! length (x # xs))"
    proof (intro allI impI)
      fix j assume j: "j < length (x # xs)"
      with i(3) True have "f ((x # xs) ! j) < f y" by fastforce
      with j show "f (?zs ! j) < f (?zs ! length (x # xs))"
        unfolding zs by (simp add: nth_append del: append_Cons)
    qed
    ultimately show ?thesis
      by (intro exI [of _ "length (x # xs)"]) simp
  next
    case False
    have "foldl step x (xs @ [y]) = ?zs ! i"
      using False i(1,2) unfolding zs by (simp add: step_def nth_append del: append_Cons)
    moreover have "\<forall>j < length ?zs. f (?zs ! j) \<le> f (?zs ! i)"
    proof (intro allI impI)
      fix j assume "j < length ?zs"
      then consider "j < length (x # xs)" | "j = length (x # xs)" by fastforce
      then show "f (?zs ! j) \<le> f (?zs ! i)"
      proof cases
        case 1
        with i(1,3) show ?thesis unfolding zs by (simp add: nth_append del: append_Cons)
      next
        case 2
        with False i(1) show ?thesis unfolding zs by (simp add: nth_append del: append_Cons)
      qed
    qed
    moreover have "\<forall>j < i. f (?zs ! j) < f (?zs ! i)"
      using i(1,4) unfolding zs by (simp add: nth_append del: append_Cons)
    ultimately show ?thesis
      using i(1) by (intro exI [of _ i]) simp
  qed
qed

lemma list_all_habits_rows:
  assumes "\<forall>r \<in> set rows. habit_row r"
  shows "\<exists>views. list_all_habits rows = Inr views \<and> length views = length rows \<and>
           (\<forall>i < length rows. view_id (views ! i) = row_id (rows ! i) \<and>
                               view_streak (views ! i) = row_streak (rows ! i))"
proof -
  from assms have "\<forall>r \<in> set rows. \<exists>v. as_view r = Inr v"
    using as_view_habit_row by blast
  from list_map_Inr [OF this] obtain views where v: "list_map as_view rows = Inr views"
    "length views = length rows" "\<forall>i < length rows. as_view (rows ! i) = Inr (views ! i)"
    by blast
  have "view_id (views ! i) = row_id (rows ! i) \<and> view_streak (views ! i) = row_streak (rows ! i)"
    if "i < length rows" for i
    using as_view_habit_row [of "rows ! i"] assms that v(3) by auto
  with v show ?thesis by (simp add: list_all_habits_def)
qed

text \<open>
  Claim C6. On the empty list \<open>longest_run_streak\<close> returns \<open>(None, 0)\<close>. On a
  non-empty list of habit rows it returns the id and the streak of one of the rows, whose
  streak is the greatest of all rows and strictly greater than that of every row before
  it: the first row with the greatest streak.
\<close>

theorem longest_run_streak_first_max:
  "longest_run_streak [] = Inr (None, 0) \<and>
   ((\<forall>r \<in> set rows. habit_row r) \<and> rows \<noteq> [] \<longrightarrow>
      (\<exists>i < length rows.
         longest_run_streak rows = Inr (Some (row_id (rows ! i)), row_streak (rows ! i)) \<and>
         (\<forall>j < length rows. row_streak (rows ! j) \<le> row_streak (rows ! i)) \<and>
         (\<forall>j < i. row_streak (rows ! j) < row_streak (rows ! i))))"
proof (intro conjI impI)
  show "longest_run_streak [] = Inr (None, 0)"
    by (simp add: longest_run_streak_def list_all_habits_def)
next
  assume a: "(\<forall>r \<in> set rows. habit_row r) \<and> rows \<noteq> []"
  with list_all_habits_rows [of rows] obtain views where v: "list_all_habits rows = Inr views"
    "length views = length rows"
    "\<forall>i < length rows. view_id (views ! i) = row_id (rows ! i) \<and>
                        view_streak (views ! i) = row_streak (rows ! i)"
    by blast
  with a obtain x xs where x: "views = x # xs" by (cases views) auto
  from foldl_max_first [of x xs view_streak] obtain i where i: "i < length views"
    "foldl (\<lambda>best v. if view_streak best < view_streak v then v else best) x xs = views ! i"
    "\<forall>j < length views. view_streak (views ! j) \<le> view_streak (views ! i)"
    "\<forall>j < i. view_streak (views ! j) < view_streak (views ! i)"
    unfolding x by blast
  have "longest_run_streak rows = Inr (Some (view_id (views ! i)), view_streak (views ! i))"
    using v(1) i(2) by (simp add: longest_run_streak_def x)
  with i v(2,3) show "\<exists>i < length rows.
         longest_run_streak rows = Inr (Some (row_id (rows ! i)), row_streak (rows ! i)) \<and>
         (\<forall>j < length rows. row_streak (rows ! j) \<le> row_streak (rows ! i)) \<and>
         (\<forall>j < i. row_streak (rows ! j) < row_streak (rows ! i))"
    by (intro exI [of _ i]) auto
qed

text \<open>Of two rows with the greatest streak 7, the earlier one (id 2) is returned.\<close>

lemma tied_rows_habit_rows: "\<forall>r \<in> set tied_rows. habit_row r"
  by (simp add: tied_rows_def habit_row_def)

lemma tied_rows_streaks:
  "length tied_rows = 3"
  "row_streak (tied_rows ! 0) = 3" "row_streak (tied_rows ! 1) = 7" "row_streak (tied_rows ! 2) = 7"
  "row_id (tied_rows ! 0) = 1" "row_id (tied_rows ! 1) = 2" "row_id (tied_rows ! 2) = 3"
  "row_streak (tied_rows ! Suc 0) = 7" "row_id (tied_rows ! Suc 0) = 2"
  by (simp_all add: tied_rows_def row_streak_def row_id_def)

theorem longest_run_streak_first_max_witness:
  "list_all habit_row tied_rows \<and> tied_rows \<noteq> [] \<and>
   row_streak (tied_rows ! 1) = 7 \<and> row_streak (tied_rows ! 2) = 7 \<and>
   longest_run_streak tied_rows = Inr (Some 2, 7)"
proof -
  have ne: "tied_rows \<noteq> []" by (simp add: tied_rows_def)
  from longest_run_streak_first_max [of tied_rows] tied_rows_habit_rows ne
  obtain i where i: "i < length tied_rows"
    "longest_run_streak tied_rows = Inr (Some (row_id (tied_rows ! i)), row_streak (tied_rows ! i))"
    "\<forall>j < length tied_rows. row_streak (tied_rows ! j) \<le> row_streak (tied_rows ! i)"
    "\<forall>j < i. row_streak (tied_rows ! j) < row_streak (tied_rows ! i)"
    by blast
  from i(1) have "i = 0 \<or> i = 1 \<or> i = 2" by (auto simp: tied_rows_streaks)
  moreover have "i \<noteq> 0"
  proof
    assume "i = 0"
    with i(3) [rule_format, of 1] show False by (simp add: tied_rows_streaks)
  qed
  moreover have "i \<noteq> 2"
  proof
    assume "i = 2"
    with i(4) [rule_format, of 1] show False by (simp add: tied_rows_streaks)
  qed
  ultimately have "i = 1" by blast
  with i(2) have "longest_run_streak tied_rows = Inr (Some 2, 7)"
    by (simp add: tied_rows_streaks)
  with tied_rows_habit_rows ne show ?thesis by (simp add: tied_rows_streaks list_all_iff)
qed

lemma first_match_rows:
  assumes "\<forall>r \<in> set rows. habit_row r"
  shows "(\<forall>i < length rows. row_id (rows ! i) = habit_id \<and> (\<forall>j < i. row_id (rows ! j) \<noteq> habit_id) \<longrightarrow>
            first_match rows habit_id = Inr (Some (rows ! i))) \<and>
         ((\<forall>r \<in> set rows. row_id r \<noteq> habit_id) \<longrightarrow> first_match rows habit_id = Inr None)"
  using assms
proof (induction rows)
  case Nil
  then show ?case by simp
next
  case (Cons r rows)
  from Cons.prems have r: "getitem r ''id'' = Inr (PInt (row_id r))"
    by (auto simp: habit_row_def getitem_def row_id_def split: option.splits pyval.splits)
  from Cons have IH: "\<forall>i < length rows. row_id (rows ! i) = habit_id \<and>
        (\<forall>j < i. row_id (rows ! j) \<noteq> habit_id) \<longrightarrow>
        first_match rows habit_id = Inr (Some (rows ! i))"
    "(\<forall>r \<in> set rows. row_id r \<noteq> habit_id) \<longrightarrow> first_match rows habit_id = Inr None"
    by simp_all
  have "first_match (r # rows) habit_id = Inr (Some ((r # rows) ! i))"
    if i: "i < length (r # rows)" "row_id ((r # rows) ! i) = habit_id"
      "\<forall>j < i. row_id ((r # rows) ! j) \<noteq> habit_id" for i
  proof (cases i)
    case 0
    with i r show ?thesis by (simp add: py_int_def)
  next
    case (Suc k)
    with i(3) have "row_id r \<noteq> habit_id" by auto
    moreover from Suc i(3) have "\<forall>j < k. row_id (rows ! j) \<noteq> habit_id" by auto
    ultimately show ?thesis using Suc i(1,2) IH(1) r by (simp add: py_int_def)
  qed
  moreover have "first_match (r # rows) habit_id = Inr None"
    if "\<forall>x \<in> set (r # rows). row_id x \<noteq> habit_id"
    using that IH(2) r by (simp add: py_int_def)
  ultimately show ?case by blast
qed

lemma habit_row_streak:
  assumes "habit_row r"
  shows "r \<noteq> []" and "py_int (get r ''streak'' (PInt 0)) = Inr (row_streak r)"
  using assms
  by (auto simp: habit_row_def get_def py_int_def row_streak_def
      split: option.splits pyval.splits)

lemma first_match_habit_rows:
  assumes "\<forall>r \<in> set rows. habit_row r"
  shows "first_match rows habit_id = Inr None \<or>
         (\<exists>r \<in> set rows. first_match rows habit_id = Inr (Some r))"
  using assms
proof (induction rows)
  case Nil
  then show ?case by simp
next
  case (Cons r rows)
  from Cons.prems have "getitem r ''id'' = Inr (PInt (row_id r))"
    by (auto simp: habit_row_def getitem_def row_id_def split: option.splits pyval.splits)
  with Cons show ?case by (auto simp: py_int_def)
qed

text \<open>
  Claim C7. On a list of habit rows, \<open>longest_run_streak_for\<close> returns the streak of
  the first row whose id is the given one, and returns 0, without raising, when no row
  has that id. \<open>list_by_periodicity\<close> returns the empty list, without raising, when no
  row's periodicity equals the query, on every list of rows. On habit rows neither
  function raises.
\<close>

theorem not_found_is_sentinel:
  "((\<forall>r \<in> set rows. habit_row r) \<longrightarrow>
      (\<forall>i < length rows.
         row_id (rows ! i) = habit_id \<and> (\<forall>j < i. row_id (rows ! j) \<noteq> habit_id) \<longrightarrow>
         longest_run_streak_for rows habit_id = Inr (row_streak (rows ! i))) \<and>
      ((\<forall>r \<in> set rows. row_id r \<noteq> habit_id) \<longrightarrow>
         longest_run_streak_for rows habit_id = Inr 0)) \<and>
   ((\<forall>r \<in> set rows. get r ''periodicity'' PNone \<noteq> PStr p) \<longrightarrow>
      list_by_periodicity rows p = Inr []) \<and>
   ((\<forall>r \<in> set rows. habit_row r) \<longrightarrow>
      (\<exists>n. longest_run_streak_for rows habit_id = Inr n) \<and>
      (\<exists>views. list_by_periodicity rows p = Inr views))"
proof (intro conjI impI allI)
  assume hr: "\<forall>r \<in> set rows. habit_row r"
  from first_match_habit_rows [OF hr, of habit_id]
  show "\<exists>n. longest_run_streak_for rows habit_id = Inr n"
  proof
    assume "first_match rows habit_id = Inr None"
    then show ?thesis by (simp add: longest_run_streak_for_def)
  next
    assume "\<exists>r \<in> set rows. first_match rows habit_id = Inr (Some r)"
    then obtain r where r: "r \<in> set rows" "first_match rows habit_id = Inr (Some r)"
      by blast
    with hr habit_row_streak [of r] show ?thesis
      by (simp add: longest_run_streak_for_def)
  qed
  from hr have "\<forall>r \<in> set (filter (\<lambda>r. get r ''periodicity'' PNone = PStr p) rows).
      \<exists>v. as_view r = Inr v"
    using as_view_habit_row by auto
  from list_map_Inr [OF this] show "\<exists>views. list_by_periodicity rows p = Inr views"
    by (auto simp: list_by_periodicity_def)
next
  fix i
  assume hr: "\<forall>r \<in> set rows. habit_row r" and i: "i < length rows"
    and m: "row_id (rows ! i) = habit_id \<and> (\<forall>j < i. row_id (rows ! j) \<noteq> habit_id)"
  from first_match_rows [OF hr, of habit_id] i m
  have f: "first_match rows habit_id = Inr (Some (rows ! i))" by blast
  from hr i have h: "habit_row (rows ! i)" by simp
  then have "rows ! i \<noteq> []" by (auto simp: habit_row_def)
  moreover from h have "py_int (get (rows ! i) ''streak'' (PInt 0)) = Inr (row_streak (rows ! i))"
    by (auto simp: habit_row_def get_def py_int_def row_streak_def
        split: option.splits pyval.splits)
  ultimately show "longest_run_streak_for rows habit_id = Inr (row_streak (rows ! i))"
    using f by (simp add: longest_run_streak_for_def)
next
  assume hr: "\<forall>r \<in> set rows. habit_row r" and "\<forall>r \<in> set rows. row_id r \<noteq> habit_id"
  with first_match_rows [OF hr, of habit_id]
  show "longest_run_streak_for rows habit_id = Inr 0"
    by (simp add: longest_run_streak_for_def)
next
  assume "\<forall>r \<in> set rows. get r ''periodicity'' PNone \<noteq> PStr p"
  then have "filter (\<lambda>r. get r ''periodicity'' PNone = PStr p) rows = []"
    by (simp add: filter_empty_conv)
  then show "list_by_periodicity rows p = Inr []"
    by (simp add: list_by_periodicity_def)
qed

text \<open>
  On the three example rows: id 9999 is not there, id 2 is the second row with streak 7,
  and no row is monthly.
\<close>

theorem not_found_is_sentinel_witness:
  "list_all habit_row tied_rows \<and>
   list_all (\<lambda>r. row_id r \<noteq> 9999) tied_rows \<and>
   longest_run_streak_for tied_rows 9999 = Inr 0 \<and>
   row_id (tied_rows ! 1) = 2 \<and> row_id (tied_rows ! 0) \<noteq> 2 \<and>
   longest_run_streak_for tied_rows 2 = Inr 7 \<and>
   list_all (\<lambda>r. get r ''periodicity'' PNone \<noteq> PStr ''monthly'') tied_rows \<and>
   list_by_periodicity tied_rows ''monthly'' = Inr []"
proof -
  note s = not_found_is_sentinel [of tied_rows]
  have a: "\<forall>r \<in> set tied_rows. row_id r \<noteq> 9999"
    by (simp add: tied_rows_def row_id_def)
  have b: "\<forall>r \<in> set tied_rows. get r ''periodicity'' PNone \<noteq> PStr ''monthly''"
    by (simp add: tied_rows_def get_def)
  have c: "\<forall>j < 1. row_id (tied_rows ! j) \<noteq> 2"
    by (simp add: tied_rows_streaks)
  from s [of 9999 p] tied_rows_habit_rows a
  have r1: "longest_run_streak_for tied_rows 9999 = Inr 0" by blast
  from s [of 2 p] tied_rows_habit_rows c tied_rows_streaks
  have r2: "longest_run_streak_for tied_rows 2 = Inr 7"
    by (metis one_less_numeral_iff semiring_norm(77))
  from s [of h "''monthly''"] b
  have r3: "list_by_periodicity tied_rows ''monthly'' = Inr []" by blast
  from tied_rows_habit_rows a b r1 r2 r3 show ?thesis
    by (simp add: tied_rows_streaks list_all_iff)
qed

section \<open>Saving a habit\<close>

text \<open>
  Whatever the engine does, a \<open>save_habit\<close> that returns gives \<open>None\<close>: the method
  ends after the commit without a \<open>return\<close>. \<open>save_user\<close>, its sibling, returns the
  cursor's \<open>lastrowid\<close>.
\<close>

lemma save_habit_result:
  "save_habit db self fs = Inr (result, self') \<Longrightarrow> result = PNone"
  by (auto simp: save_habit_def Let_def split: option.splits sum.splits prod.splits)

lemma save_user_result:
  "save_user db self n e = Inr (result, self') \<Longrightarrow>
     \<exists>c cur c'. conn self = Some c \<and> execute db c ''INSERT INTO users(name, email) VALUES (?, ?)''
                  [PStr n, PStr e] = Inr (cur, c') \<and> result = PInt (lastrowid cur)"
  by (auto simp: save_user_def split: option.splits sum.splits prod.splits)

text \<open>
  Claim C3 says that \<open>save_habit\<close> returns the id of the new habit row. On a fresh
  store, with the habit of tests/test_db.py, the insert statement reports row 1 in the
  cursor, and \<open>save_habit\<close> returns \<open>None\<close>; \<open>save_user\<close> on the same store returns
  the 1 of its own insert.
\<close>

theorem save_habit_returns_None:
  "save_habit log_engine \<lparr>path = '':memory:'', conn = Some []\<rparr> drink_water_fields =
     Inr (PNone,
          \<lparr>path = '':memory:'',
           conn = Some [(''INSERT INTO habits(user_id,name,description,goal,start_date,periodicity,reminder,completed,streak,last_completed_date) VALUES (?,?,?,?,?,?,?,?,?,?)'',
                         map snd drink_water_fields)]\<rparr>) \<and>
   execute log_engine [] ''INSERT INTO habits(user_id,name,description,goal,start_date,periodicity,reminder,completed,streak,last_completed_date) VALUES (?,?,?,?,?,?,?,?,?,?)''
       (map snd drink_water_fields) =
     Inr (\<lparr>lastrowid = 1\<rparr>,
          [(''INSERT INTO habits(user_id,name,description,goal,start_date,periodicity,reminder,completed,streak,last_completed_date) VALUES (?,?,?,?,?,?,?,?,?,?)'',
            map snd drink_water_fields)]) \<and>
   save_user log_engine \<lparr>path = '':memory:'', conn = Some []\<rparr> ''Jonas'' ''jonas@example.com'' =
     Inr (PInt 1,
          \<lparr>path = '':memory:'',
           conn = Some [(''INSERT INTO users(name, email) VALUES (?, ?)'',
                         [PStr ''Jonas'', PStr ''jonas@example.com''])]\<rparr>)"
  by (simp add: save_habit_def save_user_def log_engine_def drink_water_fields_def
      replicate_numeral)

end
